theory Spec2Isabelle
  imports Complex_Main "HOL-Library.Char_ord" "HOL-Library.List_Lexorder"
begin

section \<open>Python values, errors and loops\<close>

text \<open>
  The builders of \<^verbatim>\<open>custom_ansatz.py\<close>, \<^verbatim>\<open>pulse_ansatz.py\<close> and
  \<^verbatim>\<open>heisenberg_model.py\<close> are embedded as functions on explicit state. Python
  integers are \<open>int\<close>, a raised exception is the left summand of \<open>error + 'a\<close>, a
  \<^verbatim>\<open>for\<close> loop over a range is a fold over the list of the range's values that stops
  at the first exception.
\<close>

datatype error =
  CircuitError string
  | ValueError string
  | TypeError
  | NameError string
  | AttributeError string
  | IndexError

definition ebind :: "error + 'a \<Rightarrow> ('a \<Rightarrow> error + 'b) \<Rightarrow> error + 'b" where
  "ebind m f = (case m of Inl e \<Rightarrow> Inl e | Inr a \<Rightarrow> f a)"

text \<open>Python's \<^verbatim>\<open>range(start, stop, step)\<close> for a non-zero step.\<close>

function py_range :: "int \<Rightarrow> int \<Rightarrow> int \<Rightarrow> int list" where
  "py_range start stop step =
     (if 0 < step then (if start < stop then start # py_range (start + step) stop step else [])
      else if step < 0 then (if stop < start then start # py_range (start + step) stop step else [])
      else [])"
  by pat_completeness auto
termination
  by (relation "measure (\<lambda>(start, stop, step).
        if 0 < step then nat (stop - start) else nat (start - stop))") auto

declare py_range.simps [simp del]

text \<open>\<^verbatim>\<open>for i in xs: body\<close>, the loop body acting on the state \<open>s\<close>.\<close>

fun for_loop :: "'i list \<Rightarrow> ('i \<Rightarrow> 's \<Rightarrow> error + 's) \<Rightarrow> 's \<Rightarrow> error + 's" where
  "for_loop [] body s = Inr s"
| "for_loop (i # is) body s = ebind (body i s) (for_loop is body)"

text \<open>Python's \<^verbatim>\<open>str(k)\<close> for a non-negative integer: decimal, no leading zeros.\<close>

definition digit_char :: "nat \<Rightarrow> char" where
  "digit_char d = ''0123456789'' ! d"

function str_nat :: "nat \<Rightarrow> string" where
  "str_nat k = (if k < 10 then [digit_char k] else str_nat (k div 10) @ [digit_char (k mod 10)])"
  by pat_completeness auto
termination
  by (relation "measure id") auto

declare str_nat.simps [simp del]

section \<open>The SDK's circuit objects\<close>

text \<open>
  The quantum SDK is not part of the repository. Its objects are modelled as far as the
  builders use them: a \<^verbatim>\<open>Parameter\<close> is its name, a parameter expression is built
  from numbers and parameters by the negation and the division that \<^verbatim>\<open>add_eSWAP\<close>
  uses, an operation has a name, a number of qubits, parameters and (for a gate made from
  a circuit) the instructions that define it. A circuit has a fixed number of qubits and
  an ordered list of instructions; appending an instruction fails with the SDK's
  \<^verbatim>\<open>CircuitError\<close> when a qubit index is outside the circuit, when the number of
  qubits does not fit the gate, or when a qubit is given twice.
\<close>

datatype parameter = Parameter (name: string)

datatype pexpr = Num rat | Sym parameter | Neg pexpr | Div pexpr rat

fun free_parameters :: "pexpr \<Rightarrow> parameter list" where
  "free_parameters (Num v) = []"
| "free_parameters (Sym p) = [p]"
| "free_parameters (Neg e) = free_parameters e"
| "free_parameters (Div e v) = free_parameters e"

datatype operation =
  Operation (op_name: string) (op_num_qubits: nat) (op_params: "pexpr list")
    (op_definition: "(operation \<times> int list) list")

text \<open>A pulse schedule is the list of the waveforms it plays, each on a channel.\<close>

datatype channel = DriveChannel int | ControlChannel nat

datatype waveform =
  Drag rat pexpr rat rat
  | GaussianSquare pexpr pexpr rat rat

type_synonym schedule = "(waveform \<times> channel) list"

record circuit =
  circ_name :: string
  num_qubits :: int
  data :: "(operation \<times> int list) list"
  calibrations :: "(string \<times> int list \<times> schedule \<times> pexpr list) list"

definition QuantumCircuit :: "int \<Rightarrow> string \<Rightarrow> error + circuit" where
  "QuantumCircuit n nm =
     (if n < 0 then Inl (CircuitError ''Register size must be non-negative'')
      else Inr \<lparr>circ_name = nm, num_qubits = n, data = [], calibrations = []\<rparr>)"

text \<open>An integer qubit argument indexes the circuit's qubit list as Python does.\<close>

definition qubit_index :: "circuit \<Rightarrow> int \<Rightarrow> int" where
  "qubit_index c q = (if q < 0 then q + num_qubits c else q)"

definition append_circ :: "circuit \<Rightarrow> operation \<Rightarrow> int list \<Rightarrow> error + circuit" where
  "append_circ c g qargs =
     (if \<not> list_all (\<lambda>q. - num_qubits c \<le> q \<and> q < num_qubits c) qargs
        then Inl (CircuitError ''Index out of range'')
      else if length qargs \<noteq> op_num_qubits g
        then Inl (CircuitError ''The amount of qubit arguments does not match the gate expectation'')
      else if \<not> distinct (map (qubit_index c) qargs)
        then Inl (CircuitError ''duplicate qubit arguments'')
      else Inr (c\<lparr>data := data c @ [(g, map (qubit_index c) qargs)]\<rparr>))"

text \<open>
  \<^verbatim>\<open>circuit.parameters\<close>: the parameters of the circuit's instructions, without
  duplicates, sorted by name.
\<close>

definition parameters :: "circuit \<Rightarrow> parameter list" where
  "parameters c =
     sort_key name (remdups (concat (map (\<lambda>(g, qs). concat (map free_parameters (op_params g))) (data c))))"

text \<open>The named gate methods of the circuit class.\<close>

definition gate1 :: "string \<Rightarrow> pexpr list \<Rightarrow> operation" where
  "gate1 nm ps = Operation nm 1 ps []"

definition gate2 :: "string \<Rightarrow> pexpr list \<Rightarrow> operation" where
  "gate2 nm ps = Operation nm 2 ps []"

definition x :: "circuit \<Rightarrow> int \<Rightarrow> error + circuit" where
  "x c q = append_circ c (gate1 ''x'' []) [q]"

definition h :: "circuit \<Rightarrow> int \<Rightarrow> error + circuit" where
  "h c q = append_circ c (gate1 ''h'' []) [q]"

definition rx :: "circuit \<Rightarrow> pexpr \<Rightarrow> int \<Rightarrow> error + circuit" where
  "rx c theta q = append_circ c (gate1 ''rx'' [theta]) [q]"

definition rz :: "circuit \<Rightarrow> pexpr \<Rightarrow> int \<Rightarrow> error + circuit" where
  "rz c phi q = append_circ c (gate1 ''rz'' [phi]) [q]"

definition cx :: "circuit \<Rightarrow> int \<Rightarrow> int \<Rightarrow> error + circuit" where
  "cx c ctl tgt = append_circ c (gate2 ''cx'' []) [ctl, tgt]"

definition cnot :: "circuit \<Rightarrow> int \<Rightarrow> int \<Rightarrow> error + circuit" where
  "cnot c ctl tgt = cx c ctl tgt"

definition crx :: "circuit \<Rightarrow> pexpr \<Rightarrow> int \<Rightarrow> int \<Rightarrow> error + circuit" where
  "crx c theta ctl tgt = append_circ c (gate2 ''crx'' [theta]) [ctl, tgt]"

definition rzz :: "circuit \<Rightarrow> pexpr \<Rightarrow> int \<Rightarrow> int \<Rightarrow> error + circuit" where
  "rzz c theta q1 q2 = append_circ c (gate2 ''rzz'' [theta]) [q1, q2]"

definition ryy :: "circuit \<Rightarrow> pexpr \<Rightarrow> int \<Rightarrow> int \<Rightarrow> error + circuit" where
  "ryy c theta q1 q2 = append_circ c (gate2 ''ryy'' [theta]) [q1, q2]"

definition rxx :: "circuit \<Rightarrow> pexpr \<Rightarrow> int \<Rightarrow> int \<Rightarrow> error + circuit" where
  "rxx c theta q1 q2 = append_circ c (gate2 ''rxx'' [theta]) [q1, q2]"

text \<open>\<^verbatim>\<open>circuit.to_gate()\<close>: a gate named as the circuit, on all its qubits, with the
  circuit's parameters and the circuit's instructions as its definition.\<close>

definition to_gate :: "circuit \<Rightarrow> operation" where
  "to_gate c = Operation (circ_name c) (nat (num_qubits c)) (map Sym (parameters c)) (data c)"

section \<open>Parameter bookkeeping shared by the builders\<close>

text \<open>
  \<^verbatim>\<open>RVB\<close>, \<^verbatim>\<open>HVAnsatz\<close> and \<^verbatim>\<open>AnsatzBuilder\<close> each keep a list
  \<^verbatim>\<open>_params\<close> and define the same method
  \<^verbatim>\<open>
  def new_param(self, paramstr):
      param = Parameter("".join([paramstr, str(len(self._params))]))
      self._params.append(param)
      return param
  \<close>
  (the default of \<^verbatim>\<open>paramstr\<close> is \<^verbatim>\<open>'phi'\<close> in the first two and \<^verbatim>\<open>'p'\<close> in
  the third; the model passes the prefix explicitly). The three state records extend one
  record holding \<^verbatim>\<open>_params\<close>, and \<open>new_param\<close> is defined once on every extension.
\<close>

record has_params =
  params :: "parameter list"

definition new_param :: "string \<Rightarrow> 'a has_params_scheme \<Rightarrow> parameter \<times> 'a has_params_scheme" where
  "new_param paramstr self =
     (let param = Parameter (paramstr @ str_nat (length (params self)))
      in (param, self\<lparr>params := params self @ [param]\<rparr>))"

text \<open>
  The life of one builder instance, as far as its parameters go, is a sequence of calls of
  \<^verbatim>\<open>new_param\<close>, one per prefix of the list; the result is the list of the
  parameters the calls return, in order, and the builder after the last call.
\<close>

fun new_params :: "string list \<Rightarrow> 'a has_params_scheme \<Rightarrow> parameter list \<times> 'a has_params_scheme" where
  "new_params [] self = ([], self)"
| "new_params (paramstr # rest) self =
     (let (p, self) = new_param paramstr self;
          (ps, self) = new_params rest self
      in (p # ps, self))"

definition is_digit :: "char \<Rightarrow> bool" where
  "is_digit c = (c \<in> set ''0123456789'')"

definition ends_in_digit :: "string \<Rightarrow> bool" where
  "ends_in_digit s = (s \<noteq> [] \<and> is_digit (last s))"

section \<open>\<^verbatim>\<open>custom_ansatz.py\<close>: the RVB builder\<close>

record RVB = has_params +
  RVB_num_qubits :: int
  RVB_reps :: int

definition RVB_init :: "int \<Rightarrow> int \<Rightarrow> RVB" where
  "RVB_init n r = \<lparr>params = [], RVB_num_qubits = n, RVB_reps = r\<rparr>"

definition add_eSWAP :: "RVB \<Rightarrow> error + (operation \<times> RVB)" where
  "add_eSWAP self =
     ebind (QuantumCircuit 2 ''eSWAP'') (\<lambda>circ.
     ebind (cnot circ 1 0) (\<lambda>circ.
       let (p1, self) = new_param ''phi'' self in
     ebind (crx circ (Sym p1) 0 1) (\<lambda>circ.
     ebind (x circ 0) (\<lambda>circ.
       let (p2, self) = new_param ''phi'' self in
     ebind (rz circ (Div (Neg (Sym p2)) 2) 0) (\<lambda>circ.
     ebind (cnot circ 1 0) (\<lambda>circ.
     Inr (to_gate circ, self)))))))"

text \<open>
  \<^verbatim>\<open>ansatz.append(self.add_eSWAP(), qargs)\<close> on the pair of circuit and builder.
  The functions that build a circuit return the circuit together with the builder, whose
  \<^verbatim>\<open>_params\<close> the call has extended; a call that raises returns the exception only.
\<close>

definition append_eSWAP :: "int list \<Rightarrow> circuit \<times> RVB \<Rightarrow> error + (circuit \<times> RVB)" where
  "append_eSWAP qargs = (\<lambda>(ansatz, self).
     ebind (add_eSWAP self) (\<lambda>(g, self).
     ebind (append_circ ansatz g qargs) (\<lambda>ansatz. Inr (ansatz, self))))"

definition RVB_circuit :: "RVB \<Rightarrow> error + (circuit \<times> RVB)" where
  "RVB_circuit self =
     (let n = RVB_num_qubits self in
      if n mod 2 \<noteq> 0 then Inl (CircuitError ''The number of qubits should be even!'')
      else
        ebind (QuantumCircuit n ''RVB'') (\<lambda>ansatz.
        ebind (for_loop (py_range 0 n 1) (\<lambda>i ansatz. x ansatz i) ansatz) (\<lambda>ansatz.
        ebind (for_loop (py_range 0 n 1)
                 (\<lambda>j ansatz. if j mod 2 = 0 then ebind (h ansatz j) (\<lambda>ansatz. cx ansatz j (j + 1))
                              else Inr ansatz) ansatz) (\<lambda>ansatz.
        for_loop (py_range 0 (RVB_reps self) 1)
          (\<lambda>k st.
             ebind (for_loop (py_range (n - 1) 0 (- 2))
                      (\<lambda>l. if l < n - 1 then append_eSWAP [l, l + 1] else append_eSWAP [l, 0]) st) (\<lambda>st.
             for_loop (py_range 0 (n - 1) 2) (\<lambda>l. append_eSWAP [l, l + 1]) st))
          (ansatz, self)))))"

section \<open>\<^verbatim>\<open>custom_ansatz.py\<close>: the Hamiltonian-variational builder\<close>

record HVAnsatz = has_params +
  HVA_num_qubits :: int
  HVA_reps :: int

definition HVA_init :: "int \<Rightarrow> int \<Rightarrow> HVAnsatz" where
  "HVA_init n r = \<lparr>params = [], HVA_num_qubits = n, HVA_reps = r\<rparr>"

text \<open>
  The three statements
  \<^verbatim>\<open>ansatz.rzz(self.new_param(s), a, b); ansatz.ryy(self.new_param(s), a, b);
  ansatz.rxx(self.new_param(s), a, b)\<close>, which the layer loops repeat for each pair.
\<close>

definition HVA_rotations :: "string \<Rightarrow> int \<Rightarrow> int \<Rightarrow> circuit \<times> HVAnsatz \<Rightarrow> error + (circuit \<times> HVAnsatz)" where
  "HVA_rotations paramstr a b = (\<lambda>(ansatz, self).
     let (p, self) = new_param paramstr self in
     ebind (rzz ansatz (Sym p) a b) (\<lambda>ansatz.
     let (p, self) = new_param paramstr self in
     ebind (ryy ansatz (Sym p) a b) (\<lambda>ansatz.
     let (p, self) = new_param paramstr self in
     ebind (rxx ansatz (Sym p) a b) (\<lambda>ansatz.
     Inr (ansatz, self)))))"

text \<open>
  The first loop binds the function-local variable \<^verbatim>\<open>i\<close>; Python keeps its last
  value after the loop (and leaves it unbound when the range is empty). The state of that
  loop is the circuit together with the current binding of \<^verbatim>\<open>i\<close>.
\<close>

definition HVA_x_init :: "int \<Rightarrow> circuit \<Rightarrow> error + (circuit \<times> int option)" where
  "HVA_x_init n ansatz =
     for_loop (py_range 0 n 1)
       (\<lambda>i (ansatz, _). ebind (x ansatz i) (\<lambda>ansatz. Inr (ansatz, Some i))) (ansatz, None)"

text \<open>The Bell-pair loop runs over \<^verbatim>\<open>j\<close> and tests \<^verbatim>\<open>i % 2 == 0\<close>.\<close>

definition HVA_bell :: "int \<Rightarrow> int option \<Rightarrow> circuit \<Rightarrow> error + circuit" where
  "HVA_bell n i ansatz =
     for_loop (py_range 0 n 1)
       (\<lambda>j ansatz.
          case i of None \<Rightarrow> Inl (NameError ''i'')
          | Some i \<Rightarrow>
              if i mod 2 = 0 then ebind (h ansatz j) (\<lambda>ansatz. cx ansatz j (j + 1))
              else Inr ansatz)
       ansatz"

definition HVA_layers :: "int \<Rightarrow> int \<Rightarrow> circuit \<times> HVAnsatz \<Rightarrow> error + (circuit \<times> HVAnsatz)" where
  "HVA_layers n reps st =
     for_loop (py_range 0 reps 1)
       (\<lambda>j st.
          ebind (for_loop (py_range (n - 1) 0 (- 2))
                   (\<lambda>i. if i < n - 1 then HVA_rotations ''phi'' i (i + 1)
                        else HVA_rotations ''phi'' i 0) st) (\<lambda>st.
          for_loop (py_range 0 n 2) (\<lambda>i. HVA_rotations ''gamma'' i (i + 1)) st))
       st"

definition HVA_circuit :: "HVAnsatz \<Rightarrow> error + (circuit \<times> HVAnsatz)" where
  "HVA_circuit self =
     (let n = HVA_num_qubits self in
      if n mod 2 \<noteq> 0 then Inl (CircuitError ''The number of qubits should be even!'')
      else
        ebind (QuantumCircuit n ''HVA'') (\<lambda>ansatz.
        ebind (HVA_x_init n ansatz) (\<lambda>(ansatz, i).
        ebind (HVA_bell n i ansatz) (\<lambda>ansatz.
        HVA_layers n (HVA_reps self) (ansatz, self)))))"

section \<open>Reading a finished circuit\<close>

definition count_ops :: "string \<Rightarrow> circuit \<Rightarrow> nat" where
  "count_ops nm c = length (filter (\<lambda>(g, qs). op_name g = nm) (data c))"

definition gate_names :: "circuit \<Rightarrow> string list" where
  "gate_names c = map (\<lambda>(g, qs). op_name g) (data c)"

definition gates_on :: "circuit \<Rightarrow> (string \<times> int list) list" where
  "gates_on c = map (\<lambda>(g, qs). (op_name g, qs)) (data c)"

text \<open>The gates the Hamiltonian-variational builder can emit when the Bell-pair loop emits none.\<close>

abbreviation HVA_gates :: "string set" where
  "HVA_gates \<equiv> {''x'', ''rzz'', ''ryy'', ''rxx''}"

definition returned_circuit :: "error + (circuit \<times> 's) \<Rightarrow> circuit option" where
  "returned_circuit r = (case r of Inl e \<Rightarrow> None | Inr (c, s) \<Rightarrow> Some c)"

definition returned_state :: "error + (circuit \<times> 's) \<Rightarrow> 's option" where
  "returned_state r = (case r of Inl e \<Rightarrow> None | Inr (c, s) \<Rightarrow> Some s)"

definition num_parameters :: "circuit \<Rightarrow> nat" where
  "num_parameters c = length (parameters c)"

definition block_param_counts :: "string \<Rightarrow> circuit \<Rightarrow> nat list" where
  "block_param_counts nm c =
     map (\<lambda>(g, qs). length (op_params g)) (filter (\<lambda>(g, qs). op_name g = nm) (data c))"

definition instructions_view :: "circuit \<Rightarrow> (string \<times> pexpr list \<times> int list) list" where
  "instructions_view c = map (\<lambda>(g, qs). (op_name g, op_params g, qs)) (data c)"

definition params_with_prefix :: "string \<Rightarrow> parameter list \<Rightarrow> parameter list" where
  "params_with_prefix pre ps = filter (\<lambda>p. take (length pre) (name p) = pre) ps"

section \<open>\<^verbatim>\<open>pulse_ansatz.py\<close>: the builder of pulse gates\<close>

text \<open>
  The backend belongs to the SDK. It is the record of what the builder asks it: the
  control channels of a qubit tuple (the method \<^verbatim>\<open>control_channel\<close>, or the table
  \<^verbatim>\<open>configuration().control_channels\<close>, each of which a backend may lack) and the
  pulse of the calibrated \<^verbatim>\<open>x\<close> gate (duration, sigma, beta).
\<close>

record backend =
  control_channel :: "(int list \<Rightarrow> channel list) option"
  configuration_control_channels :: "(int list \<rightharpoonup> channel list) option option"
  x_pulse :: "int list \<Rightarrow> (rat \<times> rat \<times> rat) option"

type_synonym wrapper = "string \<times> (rat \<times> rat \<times> rat \<times> rat) \<times> string"

record AnsatzBuilder = has_params +
  backend :: backend
  physical_qubits_map :: "int list"
  control_channels :: "(int list \<times> channel) list"
  wrapper_config :: "nat \<rightharpoonup> wrapper"
  max_duration :: rat
  max_freq_shift :: "(int \<rightharpoonup> rat \<times> rat) option"

definition AnsatzBuilder_init ::
    "backend \<Rightarrow> int list \<Rightarrow> (int \<rightharpoonup> rat \<times> rat) option \<Rightarrow> rat \<Rightarrow> AnsatzBuilder" where
  "AnsatzBuilder_init be physical_qubits frequency_shift_ranges max_dur =
     \<lparr>params = [], backend = be, physical_qubits_map = physical_qubits, control_channels = [],
      wrapper_config = Map.empty, max_duration = max_dur,
      max_freq_shift = frequency_shift_ranges\<rparr>"

definition py_index :: "'a list \<Rightarrow> nat \<Rightarrow> error + 'a" where
  "py_index xs i = (if i < length xs then Inr (xs ! i) else Inl IndexError)"

text \<open>
  \<^verbatim>\<open>_get_control_channel\<close>: the backend's channel when it has one, else a channel
  made up by the builder and kept in \<^verbatim>\<open>_control_channels\<close>.
\<close>

definition self_made_control_channel :: "AnsatzBuilder \<Rightarrow> int list \<Rightarrow> channel \<times> AnsatzBuilder" where
  "self_made_control_channel self qubits =
     (case map_of (control_channels self) qubits of
        Some ch \<Rightarrow> (ch, self)
      | None \<Rightarrow>
          (let max_chan = length (control_channels self);
               ch = ControlChannel (max_chan + 1)
           in (ch, self\<lparr>control_channels := control_channels self @ [(qubits, ch)]\<rparr>)))"

definition get_control_channel :: "AnsatzBuilder \<Rightarrow> int list \<Rightarrow> error + (channel \<times> AnsatzBuilder)" where
  "get_control_channel self qubits =
     (case control_channel (backend self) of
        Some f \<Rightarrow> ebind (py_index (f qubits) 0) (\<lambda>ch. Inr (ch, self))
      | None \<Rightarrow>
          (case configuration_control_channels (backend self) of
             Some (Some table) \<Rightarrow>
               (case table qubits of
                  Some chans \<Rightarrow> ebind (py_index chans 0) (\<lambda>ch. Inr (ch, self))
                | None \<Rightarrow> Inr (self_made_control_channel self qubits))
           | _ \<Rightarrow> Inr (self_made_control_channel self qubits)))"

definition add_rx :: "circuit \<Rightarrow> int \<Rightarrow> AnsatzBuilder \<Rightarrow> error + (circuit \<times> AnsatzBuilder)" where
  "add_rx circuit qubit self =
     (let (param, self) = new_param ''phi'' self in
      ebind (rx circuit (Sym param) qubit) (\<lambda>circuit. Inr (circuit, self)))"

definition add_cr ::
    "circuit \<Rightarrow> int list \<Rightarrow> parameter option \<Rightarrow> AnsatzBuilder \<Rightarrow> error + (circuit \<times> AnsatzBuilder)" where
  "add_cr circuit qubits duration self =
     (let (duration, self) = (case duration of None \<Rightarrow> new_param ''t'' self | Some d \<Rightarrow> (d, self));
          (phi, self) = new_param ''phi'' self
      in ebind (append_circ circuit (Operation ''cr'' 2 [Sym duration, Sym phi] []) qubits)
           (\<lambda>circuit. Inr (circuit, self)))"

text \<open>
  \<^verbatim>\<open>_param_idx\<close>: the loop over \<^verbatim>\<open>enumerate(circuit.parameters)\<close> that returns at
  the first equal parameter, and the \<^verbatim>\<open>ValueError\<close> raised after the loop.
\<close>

fun param_idx_from :: "nat \<Rightarrow> parameter list \<Rightarrow> parameter \<Rightarrow> error + nat" where
  "param_idx_from idx [] param = Inl (ValueError (''Parameter '' @ name param @ '' not found''))"
| "param_idx_from idx (circ_param # rest) param =
     (if circ_param = param then Inr idx else param_idx_from (Suc idx) rest param)"

definition param_idx :: "circuit \<Rightarrow> parameter \<Rightarrow> error + nat" where
  "param_idx circuit param = param_idx_from 0 (parameters circuit) param"

text \<open>
  \<^verbatim>\<open>float(e)\<close> and \<^verbatim>\<open>int(e)\<close> of a gate parameter: the number when the
  expression has no unbound parameter, \<^verbatim>\<open>TypeError\<close> otherwise.
\<close>

fun pexpr_value :: "pexpr \<Rightarrow> error + rat" where
  "pexpr_value (Num v) = Inr v"
| "pexpr_value (Sym p) = Inl TypeError"
| "pexpr_value (Neg e) = ebind (pexpr_value e) (\<lambda>v. Inr (- v))"
| "pexpr_value (Div e d) = ebind (pexpr_value e) (\<lambda>v. Inr (v / d))"

definition py_float :: "pexpr \<Rightarrow> error + rat" where
  "py_float e = pexpr_value e"

definition py_int :: "pexpr \<Rightarrow> error + rat" where
  "py_int e = ebind (pexpr_value e) (\<lambda>v. Inr (if 0 \<le> v then of_int \<lfloor>v\<rfloor> else of_int \<lceil>v\<rceil>))"

text \<open>
  The statement
  \<^verbatim>\<open>self._wrapper_config[self._param_idx(circuit, e)] = (tag, coeffs, f"label[{e.name}]")\<close>
  of the two \<^verbatim>\<open>except TypeError\<close> branches. Python evaluates the right-hand side
  first (only a \<^verbatim>\<open>Parameter\<close> has a name), then the key, then stores.
\<close>

definition record_wrapper ::
    "pexpr \<Rightarrow> (string \<Rightarrow> wrapper) \<Rightarrow> circuit \<Rightarrow> AnsatzBuilder \<Rightarrow> (error + pexpr) \<times> AnsatzBuilder" where
  "record_wrapper e entry circuit self =
     (case e of
        Sym p \<Rightarrow>
          (case param_idx circuit p of
             Inl err \<Rightarrow> (Inl err, self)
           | Inr k \<Rightarrow> (Inr e, self\<lparr>wrapper_config := (wrapper_config self)(k \<mapsto> entry (name p))\<rparr>))
      | _ \<Rightarrow> (Inl (AttributeError ''name''), self))"

text \<open>
  The block \<^verbatim>\<open>try: v = conv(e)\<close> / \<^verbatim>\<open>except TypeError: v = e; (record the
  wrapper)\<close>, with \<^verbatim>\<open>conv\<close> one of \<^verbatim>\<open>float\<close> and \<^verbatim>\<open>int\<close>.
\<close>

definition try_convert ::
    "(pexpr \<Rightarrow> error + rat) \<Rightarrow> pexpr \<Rightarrow> (string \<Rightarrow> wrapper) \<Rightarrow> circuit \<Rightarrow> AnsatzBuilder
       \<Rightarrow> (error + pexpr) \<times> AnsatzBuilder" where
  "try_convert conv e entry circuit self =
     (case conv e of
        Inr v \<Rightarrow> (Inr (Num v), self)
      | Inl err \<Rightarrow> record_wrapper e entry circuit self)"

definition amp_wrapper :: "string \<Rightarrow> wrapper" where
  "amp_wrapper nm = (''SinWrapper'', (1, 1, 0, 0), ''amp['' @ nm @ '']'')"

definition dur_wrapper :: "rat \<Rightarrow> string \<Rightarrow> wrapper" where
  "dur_wrapper max_dur nm =
     (''SinDurationWrapper'', (max_dur / 2, 1, max_dur / 2 + 4 * 64, 160), ''dur['' @ nm @ '']'')"

definition add_calibration ::
    "circuit \<Rightarrow> string \<Rightarrow> int list \<Rightarrow> schedule \<Rightarrow> pexpr list \<Rightarrow> circuit" where
  "add_calibration circuit gate qubits sched ps =
     circuit\<lparr>calibrations := calibrations circuit @ [(gate, qubits, sched, ps)]\<rparr>"

text \<open>
  The schedule functions return the outcome together with the builder, since entries
  written to \<^verbatim>\<open>_wrapper_config\<close> before an exception stay written.
\<close>

definition add_rx_schedule ::
    "pexpr list \<Rightarrow> int list \<Rightarrow> circuit \<Rightarrow> AnsatzBuilder \<Rightarrow> (error + circuit) \<times> AnsatzBuilder" where
  "add_rx_schedule ps pqubits circuit self =
     (case py_index ps 0 of
        Inl err \<Rightarrow> (Inl err, self)
      | Inr p0 \<Rightarrow>
          (case try_convert py_float p0 amp_wrapper circuit self of
             (Inl err, self) \<Rightarrow> (Inl err, self)
           | (Inr amp, self) \<Rightarrow>
               (case x_pulse (backend self) pqubits of
                  None \<Rightarrow> (Inl (AttributeError ''instructions''), self)
                | Some (duration, sigma, beta) \<Rightarrow>
                    (case py_index pqubits 0 of
                       Inl err \<Rightarrow> (Inl err, self)
                     | Inr q0 \<Rightarrow>
                         (Inr (add_calibration circuit ''rx'' pqubits
                                 [(Drag duration amp sigma beta, DriveChannel q0)] [amp]),
                          self)))))"

definition add_cr_schedule ::
    "pexpr list \<Rightarrow> int list \<Rightarrow> circuit \<Rightarrow> AnsatzBuilder \<Rightarrow> (error + circuit) \<times> AnsatzBuilder" where
  "add_cr_schedule ps pqubits circuit self =
     (case py_index ps 0 of
        Inl err \<Rightarrow> (Inl err, self)
      | Inr p0 \<Rightarrow>
          (case try_convert py_int p0 (dur_wrapper (max_duration self)) circuit self of
             (Inl err, self) \<Rightarrow> (Inl err, self)
           | (Inr duration, self) \<Rightarrow>
               (case py_index ps 1 of
                  Inl err \<Rightarrow> (Inl err, self)
                | Inr p1 \<Rightarrow>
                    (case try_convert py_float p1 amp_wrapper circuit self of
                       (Inl err, self) \<Rightarrow> (Inl err, self)
                     | (Inr amp, self) \<Rightarrow>
                         (case get_control_channel self pqubits of
                            Inl err \<Rightarrow> (Inl err, self)
                          | Inr (u_chan, self) \<Rightarrow>
                              (Inr (add_calibration circuit ''cr'' pqubits
                                      [(GaussianSquare duration amp 64 2, u_chan)] [duration, amp]),
                               self))))))"

section \<open>\<^verbatim>\<open>pulse_ansatz.py\<close>: the cross-resonance ansatz\<close>

text \<open>
  The \<^verbatim>\<open>entanglement\<close> argument is a string or a list of qubit tuples; any other
  Python value is \<open>EOther\<close>.
\<close>

datatype entanglement = EStr string | EList "int list list" | EOther

record PulseAnsatz =
  builder :: AnsatzBuilder
  PA_num_qubits :: int
  PA_reps :: int
  PA_entanglement :: entanglement
  PA_add_rz :: bool
  PA_final_rx :: bool

definition layer_rotation :: "bool \<Rightarrow> int \<Rightarrow> circuit \<times> AnsatzBuilder \<Rightarrow> error + (circuit \<times> AnsatzBuilder)" where
  "layer_rotation with_rz qubit = (\<lambda>(ansatz, b).
     ebind (add_rx ansatz qubit b) (\<lambda>(ansatz, b).
       if with_rz then
         (let (p, b) = new_param ''phi'' b in
          ebind (rz ansatz (Sym p) qubit) (\<lambda>ansatz. Inr (ansatz, b)))
       else Inr (ansatz, b)))"

definition layer_cr :: "int list \<Rightarrow> circuit \<times> AnsatzBuilder \<Rightarrow> error + (circuit \<times> AnsatzBuilder)" where
  "layer_cr pair = (\<lambda>(ansatz, b). add_cr ansatz pair None b)"

definition CRAnsatz_layer :: "PulseAnsatz \<Rightarrow> error + (circuit \<times> AnsatzBuilder)" where
  "CRAnsatz_layer self =
     (let n = PA_num_qubits self in
      ebind (QuantumCircuit n ''circuit'') (\<lambda>ansatz.
      ebind (for_loop (py_range 0 n 1) (layer_rotation (PA_add_rz self)) (ansatz, builder self)) (\<lambda>st.
      ebind (if PA_entanglement self = EStr ''interleaved'' then
               ebind (for_loop (py_range 0 n 2) (\<lambda>qubit. layer_cr [qubit, qubit + 1]) st) (\<lambda>st.
               for_loop (py_range 1 (n - 1) 2) (\<lambda>qubit. layer_cr [qubit, qubit + 1]) st)
             else Inr st) (\<lambda>st.
      case PA_entanglement self of
        EList pairs \<Rightarrow> for_loop pairs layer_cr st
      | _ \<Rightarrow> Inr st))))"

section \<open>\<^verbatim>\<open>heisenberg_model.py\<close>\<close>

text \<open>
  The lattice and the spin operator belong to the SDK: a lattice is its weighted edge
  list and its number of nodes, the operator is the list of labelled terms handed to
  \<^verbatim>\<open>SpinOp\<close> with the spin and the register length. The module imports
  \<^verbatim>\<open>logging\<close> but binds no name \<^verbatim>\<open>logger\<close>, so the branch taken for a
  display format raises \<^verbatim>\<open>NameError\<close>.
\<close>

record 'w lattice =
  weighted_edge_list :: "(nat \<times> nat \<times> 'w) list"
  num_nodes :: nat

record 'w SpinOp =
  terms :: "(string \<times> 'w) list"
  spin :: rat
  register_length :: nat

definition ham_step :: "(string \<times> 'w) list \<Rightarrow> nat \<times> nat \<times> 'w \<Rightarrow> (string \<times> 'w) list" where
  "ham_step ham = (\<lambda>(node_a, node_b, weight).
     if node_a = node_b then ham @ [(''X_'' @ str_nat node_a, weight)]
     else ham @ [(''X_'' @ str_nat node_a @ '' X_'' @ str_nat node_b, weight)]
              @ [(''Y_'' @ str_nat node_a @ '' Y_'' @ str_nat node_b, weight)]
              @ [(''Z_'' @ str_nat node_a @ '' Z_'' @ str_nat node_b, weight)])"

definition second_q_ops :: "string option \<Rightarrow> 'w lattice \<Rightarrow> error + 'w SpinOp" where
  "second_q_ops display_format lat =
     (if display_format \<noteq> None then Inl (NameError ''logger'')
      else Inr \<lparr>terms = foldl ham_step [] (weighted_edge_list lat), spin = 1 / 2,
                register_length = num_nodes lat\<rparr>)"

text \<open>The terms the specification assigns to one edge.\<close>

definition spec_edge_terms :: "nat \<times> nat \<times> 'w \<Rightarrow> (string \<times> 'w) list" where
  "spec_edge_terms = (\<lambda>(a, b, w).
     if a = b then [(''X_'' @ str_nat a, w)]
     else [(''X_'' @ str_nat a @ '' X_'' @ str_nat b, w),
           (''Y_'' @ str_nat a @ '' Y_'' @ str_nat b, w),
           (''Z_'' @ str_nat a @ '' Z_'' @ str_nat b, w)])"

section \<open>Concrete inputs\<close>

text \<open>A two-qubit circuit with one cross-resonance gate, as \<^verbatim>\<open>add_cr\<close> builds it.\<close>

definition cr_circuit :: circuit where
  "cr_circuit = \<lparr>circ_name = ''circuit'', num_qubits = 2,
      data = [(Operation ''cr'' 2 [Sym (Parameter ''t0''), Sym (Parameter ''phi1'')] [], [0, 1])],
      calibrations = []\<rparr>"

text \<open>A simulator backend without control channels, and a fresh builder on it.\<close>

definition sim_backend :: backend where
  "sim_backend = \<lparr>control_channel = None, configuration_control_channels = None,
      x_pulse = (\<lambda>qubits. Some (160, 40, 1))\<rparr>"

definition sim_builder :: AnsatzBuilder where
  "sim_builder = AnsatzBuilder_init sim_backend [0, 1] None 800"

text \<open>A two-qubit ansatz with an entanglement name the layer does not know, with virtual-Z gates.\<close>

definition linear_ansatz :: PulseAnsatz where
  "linear_ansatz = \<lparr>builder = sim_builder, PA_num_qubits = 2, PA_reps = 1,
      PA_entanglement = EStr ''linear'', PA_add_rz = True, PA_final_rx = True\<rparr>"

text \<open>
  Eleven calls on one builder: \<^verbatim>\<open>new_param('p1')\<close>, then ten times
  \<^verbatim>\<open>new_param('p')\<close>.
\<close>

definition clashing_prefixes :: "string list" where
  "clashing_prefixes = [''p1'', ''p'', ''p'', ''p'', ''p'', ''p'', ''p'', ''p'', ''p'', ''p'', ''p'']"

text \<open>A lattice with a self-loop on node 0 and an edge between nodes 0 and 1.\<close>

definition two_edge_lattice :: "int lattice" where
  "two_edge_lattice = \<lparr>weighted_edge_list = [(0, 0, 3), (0, 1, 5)], num_nodes = 2\<rparr>"

section \<open>Loops and ranges\<close>

lemma ebind_Inr [simp]: "ebind (Inr a) f = f a"
  by (simp add: ebind_def)

lemma ebind_Inl [simp]: "ebind (Inl e) f = Inl e"
  by (simp add: ebind_def)

lemma for_loop_append: "for_loop (xs @ ys) body s = ebind (for_loop xs body s) (for_loop ys body)"
  by (induction xs arbitrary: s) (auto simp: ebind_def split: sum.splits)

lemma for_loop_inv_nth:
  assumes "I 0 s"
    and "\<And>k s. k < length xs \<Longrightarrow> I k s \<Longrightarrow> \<exists>s'. body (xs ! k) s = Inr s' \<and> I (Suc k) s'"
  shows "\<exists>s'. for_loop xs body s = Inr s' \<and> I (length xs) s'"
  using assms
proof (induction xs arbitrary: s I)
  case Nil
  then show ?case by simp
next
  case (Cons x xs)
  from Cons.prems(2)[of 0 s] Cons.prems(1)
  obtain s1 where s1: "body x s = Inr s1" "I (Suc 0) s1" by auto
  have "\<exists>s'. for_loop xs body s1 = Inr s' \<and> (\<lambda>k. I (Suc k)) (length xs) s'"
  proof (rule Cons.IH)
    show "I (Suc 0) s1" by (rule s1)
  next
    fix k s assume "k < length xs" "I (Suc k) s"
    with Cons.prems(2)[of "Suc k" s] show "\<exists>s'. body (xs ! k) s = Inr s' \<and> I (Suc (Suc k)) s'"
      by simp
  qed
  with s1 show ?case by simp
qed

lemma for_loop_inv:
  assumes "I s"
    and "\<And>i s. i \<in> set xs \<Longrightarrow> I s \<Longrightarrow> \<exists>s'. body i s = Inr s' \<and> I s'"
  shows "\<exists>s'. for_loop xs body s = Inr s' \<and> I s'"
  using for_loop_inv_nth[where I = "\<lambda>k. I" and xs = xs and body = body and s = s] assms
  by auto

lemma py_range_up_step:
  "0 < step \<Longrightarrow> start < stop \<Longrightarrow>
     py_range start stop step = start # py_range (start + step) stop step"
  by (subst py_range.simps) simp

lemma py_range_up_empty: "0 < step \<Longrightarrow> \<not> start < stop \<Longrightarrow> py_range start stop step = []"
  by (subst py_range.simps) simp

lemma py_range_down_step:
  "step < 0 \<Longrightarrow> stop < start \<Longrightarrow>
     py_range start stop step = start # py_range (start + step) stop step"
  by (subst py_range.simps) simp

lemma py_range_down_empty: "step < 0 \<Longrightarrow> \<not> stop < start \<Longrightarrow> py_range start stop step = []"
  by (subst py_range.simps) simp

lemma py_range_up_set:
  "0 < step \<Longrightarrow> i \<in> set (py_range start stop step) \<Longrightarrow>
     start \<le> i \<and> i < stop \<and> (i - start) mod step = 0"
proof (induction start stop step rule: py_range.induct)
  case (1 start stop step)
  show ?case
  proof (cases "start < stop")
    case True
    with "1.prems" have "i = start \<or> i \<in> set (py_range (start + step) stop step)"
      by (simp add: py_range_up_step)
    then show ?thesis
    proof
      assume "i = start" with True show ?thesis by simp
    next
      assume "i \<in> set (py_range (start + step) stop step)"
      with "1.IH"(1) "1.prems"(1) True
      have a: "start + step \<le> i \<and> i < stop \<and> (i - (start + step)) mod step = 0" by simp
      have "i - start = (i - (start + step)) + step" by simp
      then have "(i - start) mod step = (i - (start + step)) mod step"
        by (simp only: mod_add_self2)
      with a show ?thesis using "1.prems"(1) by simp
    qed
  next
    case False
    with "1.prems" show ?thesis by (simp add: py_range_up_empty)
  qed
qed

lemma py_range_down_set:
  "step < 0 \<Longrightarrow> i \<in> set (py_range start stop step) \<Longrightarrow>
     stop < i \<and> i \<le> start \<and> (start - i) mod (- step) = 0"
proof (induction start stop step rule: py_range.induct)
  case (1 start stop step)
  show ?case
  proof (cases "stop < start")
    case True
    with "1.prems" have "i = start \<or> i \<in> set (py_range (start + step) stop step)"
      by (simp add: py_range_down_step)
    then show ?thesis
    proof
      assume "i = start" with True show ?thesis by simp
    next
      assume "i \<in> set (py_range (start + step) stop step)"
      with "1.IH"(2) "1.prems"(1) True
      have a: "stop < i \<and> i \<le> start + step \<and> (start + step - i) mod (- step) = 0" by simp
      have "start - i = (start + step - i) + (- step)" by simp
      then have "(start - i) mod (- step) = (start + step - i) mod (- step)"
        by (simp only: mod_add_self2)
      with a show ?thesis using "1.prems"(1) by simp
    qed
  next
    case False
    with "1.prems" show ?thesis by (simp add: py_range_down_empty)
  qed
qed

lemma py_range_up_length:
  "0 < step \<Longrightarrow> length (py_range start stop step) = nat ((stop - start + step - 1) div step)"
proof (induction start stop step rule: py_range.induct)
  case (1 start stop step)
  show ?case
  proof (cases "start < stop")
    case True
    have "length (py_range start stop step) = Suc (length (py_range (start + step) stop step))"
      using True "1.prems" by (simp add: py_range_up_step)
    also have "\<dots> = Suc (nat ((stop - (start + step) + step - 1) div step))"
      using "1.IH"(1) "1.prems" True by simp
    also have "\<dots> = nat ((stop - start + step - 1) div step)"
    proof -
      have "stop - start + step - 1 = (stop - start - 1) + step" by simp
      then have "(stop - start + step - 1) div step = (stop - start - 1) div step + 1"
        using "1.prems" by (simp only: div_add_self2)
      moreover have "0 \<le> (stop - start - 1) div step"
        using True "1.prems" by (simp add: pos_imp_zdiv_nonneg_iff)
      moreover have "stop - (start + step) + step - 1 = stop - start - 1" by simp
      ultimately show ?thesis by simp
    qed
    finally show ?thesis .
  next
    case False
    then have "py_range start stop step = []"
      using "1.prems" by (simp add: py_range_up_empty)
    moreover have "(stop - start + step - 1) div step \<le> 0"
    proof -
      have "stop - start + step - 1 \<le> step - 1" using False by simp
      then have "(stop - start + step - 1) div step \<le> (step - 1) div step"
        using "1.prems" by (rule zdiv_mono1)
      also have "(step - 1) div step = 0"
        using "1.prems" by simp
      finally show ?thesis .
    qed
    ultimately show ?thesis by simp
  qed
qed

lemma py_range_up_nth:
  "0 < step \<Longrightarrow> k < length (py_range start stop step) \<Longrightarrow>
     py_range start stop step ! k = start + int k * step"
proof (induction start stop step arbitrary: k rule: py_range.induct)
  case (1 start stop step)
  show ?case
  proof (cases "start < stop")
    case True
    then have eq: "py_range start stop step = start # py_range (start + step) stop step"
      using "1.prems" by (simp add: py_range_up_step)
    show ?thesis
    proof (cases k)
      case 0
      then show ?thesis using eq by simp
    next
      case (Suc j)
      with "1.prems" eq have "j < length (py_range (start + step) stop step)" by simp
      with "1.IH"(1)[of j] "1.prems"(1) True
      have "py_range (start + step) stop step ! j = start + step + int j * step" by simp
      then show ?thesis using eq Suc by (simp add: algebra_simps)
    qed
  next
    case False
    then have "py_range start stop step = []"
      using "1.prems" by (simp add: py_range_up_empty)
    with "1.prems" show ?thesis by simp
  qed
qed

section \<open>The RVB circuit on four qubits\<close>

text \<open>
  C1, as the code has it: for RVB with qubit count 4 and repetition count 1,
  \<^verbatim>\<open>circuit()\<close> returns a circuit on 4 qubits with exactly 4 eSWAP blocks (the
  descending pass visits the pairs (3,0) and (1,2), the ascending pass (0,1) and (2,3)),
  each block has 2 parameters, and the circuit has 8 distinct parameters.
\<close>

theorem RVB_4_1_blocks:
  "map_option (count_ops ''eSWAP'') (returned_circuit (RVB_circuit (RVB_init 4 1))) = Some 4
   \<and> map_option (block_param_counts ''eSWAP'') (returned_circuit (RVB_circuit (RVB_init 4 1)))
       = Some [2, 2, 2, 2]
   \<and> map_option num_parameters (returned_circuit (RVB_circuit (RVB_init 4 1))) = Some 8
   \<and> map_option num_qubits (returned_circuit (RVB_circuit (RVB_init 4 1))) = Some 4
   \<and> map_option gates_on (returned_circuit (RVB_circuit (RVB_init 4 1))) =
       Some [(''x'', [0]), (''x'', [1]), (''x'', [2]), (''x'', [3]),
             (''h'', [0]), (''cx'', [0, 1]), (''h'', [2]), (''cx'', [2, 3]),
             (''eSWAP'', [3, 0]), (''eSWAP'', [1, 2]), (''eSWAP'', [0, 1]), (''eSWAP'', [2, 3])]
   \<and> map_option parameters (returned_circuit (RVB_circuit (RVB_init 4 1))) =
       Some (map Parameter [''phi0'', ''phi1'', ''phi2'', ''phi3'', ''phi4'', ''phi5'',
         ''phi6'', ''phi7''])"
  by code_simp

text \<open>
  C1 as the specification states it (3 eSWAP blocks, 6 parameters) does not hold of the
  circuit that \<^verbatim>\<open>RVB(4, 1).circuit()\<close> returns.
\<close>

theorem RVB_4_1_three_blocks_counterexample:
  "\<not> (map_option (count_ops ''eSWAP'') (returned_circuit (RVB_circuit (RVB_init 4 1))) = Some 3
      \<and> map_option num_parameters (returned_circuit (RVB_circuit (RVB_init 4 1))) = Some 6
      \<and> map_option num_qubits (returned_circuit (RVB_circuit (RVB_init 4 1))) = Some 4)"
  by code_simp

section \<open>The Hamiltonian-variational circuit on four qubits\<close>

text \<open>
  C5: for HVAnsatz with qubit count 4 and repetition count 1, the odd layer visits the two
  pairs (3,0) and (1,2) and the even layer the two pairs (0,1) and (2,3); each pair gets
  one RZZ, one RYY and one RXX rotation, each with a parameter of its own, so the builder
  allocates 3 parameters per pair: 6 named \<^verbatim>\<open>phi\<close> in the odd layer and 6 named
  \<^verbatim>\<open>gamma\<close> in the even layer.
\<close>

theorem HVA_4_1_parameters_per_pair:
  "map_option instructions_view (returned_circuit (HVA_circuit (HVA_init 4 1))) =
     Some [(''x'', [], [0]), (''x'', [], [1]), (''x'', [], [2]), (''x'', [], [3]),
           (''rzz'', [Sym (Parameter ''phi0'')], [3, 0]),
           (''ryy'', [Sym (Parameter ''phi1'')], [3, 0]),
           (''rxx'', [Sym (Parameter ''phi2'')], [3, 0]),
           (''rzz'', [Sym (Parameter ''phi3'')], [1, 2]),
           (''ryy'', [Sym (Parameter ''phi4'')], [1, 2]),
           (''rxx'', [Sym (Parameter ''phi5'')], [1, 2]),
           (''rzz'', [Sym (Parameter ''gamma6'')], [0, 1]),
           (''ryy'', [Sym (Parameter ''gamma7'')], [0, 1]),
           (''rxx'', [Sym (Parameter ''gamma8'')], [0, 1]),
           (''rzz'', [Sym (Parameter ''gamma9'')], [2, 3]),
           (''ryy'', [Sym (Parameter ''gamma10'')], [2, 3]),
           (''rxx'', [Sym (Parameter ''gamma11'')], [2, 3])]
   \<and> map_option params (returned_state (HVA_circuit (HVA_init 4 1))) =
       Some (map Parameter [''phi0'', ''phi1'', ''phi2'', ''phi3'', ''phi4'', ''phi5'',
         ''gamma6'', ''gamma7'', ''gamma8'', ''gamma9'', ''gamma10'', ''gamma11''])
   \<and> py_range (4 - 1) 0 (- 2) = [3, 1]
   \<and> py_range 0 4 2 = [0, 2]
   \<and> map_option (\<lambda>s. length (params_with_prefix ''phi'' (params s)))
         (returned_state (HVA_circuit (HVA_init 4 1))) = Some (3 * length (py_range (4 - 1) 0 (- 2)))
   \<and> map_option (\<lambda>s. length (params_with_prefix ''gamma'' (params s)))
         (returned_state (HVA_circuit (HVA_init 4 1))) = Some (3 * length (py_range 0 4 2))"
  by code_simp

section \<open>The interleaved cross-resonance layer on an odd number of qubits\<close>

text \<open>
  C2 at qubit count 3: the first entangling loop runs over \<^verbatim>\<open>range(0, 3, 2)\<close> and so
  also asks for a gate on the pair (2, 3), whose second qubit is not in the circuit; the
  SDK rejects it and the layer is never returned. The two loops together visit 3 pairs,
  where the formula of the specification gives 2.
\<close>

theorem CRAnsatz_layer_3_interleaved:
  "CRAnsatz_layer \<lparr>builder = b, PA_num_qubits = 3, PA_reps = r,
       PA_entanglement = EStr ''interleaved'', PA_add_rz = z, PA_final_rx = f\<rparr>
     = Inl (CircuitError ''Index out of range'')
   \<and> py_range 0 3 2 = [0, 2] \<and> py_range 1 (3 - 1) 2 = [1]
   \<and> (3::int) div 2 + (3 - 1) div 2 = 2"
  by (simp add: CRAnsatz_layer_def QuantumCircuit_def py_range.simps layer_rotation_def
      layer_cr_def add_rx_def add_cr_def new_param_def rx_def rz_def append_circ_def gate1_def
      qubit_index_def split_def Let_def)

section \<open>Parameter lookup\<close>

lemma param_idx_from_found:
  "param \<in> set ps \<Longrightarrow>
     \<exists>i. param_idx_from k ps param = Inr (k + i) \<and> i < length ps \<and> ps ! i = param
        \<and> param \<notin> set (take i ps)"
proof (induction ps arbitrary: k)
  case Nil
  then show ?case by simp
next
  case (Cons q ps)
  show ?case
  proof (cases "q = param")
    case True
    then have "param_idx_from k (q # ps) param = Inr (k + 0) \<and> 0 < length (q # ps)
        \<and> (q # ps) ! 0 = param \<and> param \<notin> set (take 0 (q # ps))" by simp
    then show ?thesis by blast
  next
    case False
    with Cons.prems have "param \<in> set ps" by simp
    from Cons.IH[OF this, of "Suc k"] obtain i where
      i: "param_idx_from (Suc k) ps param = Inr (Suc k + i)" "i < length ps" "ps ! i = param"
         "param \<notin> set (take i ps)" by blast
    with False have "param_idx_from k (q # ps) param = Inr (k + Suc i) \<and> Suc i < length (q # ps)
        \<and> (q # ps) ! Suc i = param \<and> param \<notin> set (take (Suc i) (q # ps))" by simp
    then show ?thesis by blast
  qed
qed

lemma param_idx_from_absent:
  "param \<notin> set ps \<Longrightarrow>
     param_idx_from k ps param = Inl (ValueError (''Parameter '' @ name param @ '' not found''))"
  by (induction ps arbitrary: k) auto

lemma param_idx_Inr:
  assumes "param_idx circuit param = Inr k"
  shows "k < length (parameters circuit) \<and> parameters circuit ! k = param
         \<and> param \<notin> set (take k (parameters circuit))"
proof (cases "param \<in> set (parameters circuit)")
  case True
  from param_idx_from_found[OF True, of 0] assms show ?thesis
    by (auto simp: param_idx_def)
next
  case False
  with assms show ?thesis by (simp add: param_idx_def param_idx_from_absent)
qed

lemma parameters_cr_circuit: "parameters cr_circuit = [Parameter ''phi1'', Parameter ''t0'']"
  by code_simp

text \<open>
  C9: \<^verbatim>\<open>_param_idx\<close> returns the position of the first occurrence of the parameter
  in \<^verbatim>\<open>circuit.parameters\<close> when the parameter is there, and raises
  \<^verbatim>\<open>ValueError\<close> exactly when it is not.
\<close>

theorem param_idx_found_or_ValueError:
  "(param \<in> set (parameters circuit) \<longrightarrow>
      (\<exists>idx. param_idx circuit param = Inr idx \<and> idx < length (parameters circuit)
         \<and> parameters circuit ! idx = param \<and> param \<notin> set (take idx (parameters circuit))))
   \<and> (param \<notin> set (parameters circuit) \<longrightarrow>
      param_idx circuit param = Inl (ValueError (''Parameter '' @ name param @ '' not found'')))
   \<and> ((\<exists>msg. param_idx circuit param = Inl (ValueError msg)) \<longleftrightarrow> param \<notin> set (parameters circuit))"
proof -
  have found: "param \<in> set (parameters circuit) \<Longrightarrow>
      (\<exists>idx. param_idx circuit param = Inr idx \<and> idx < length (parameters circuit)
         \<and> parameters circuit ! idx = param \<and> param \<notin> set (take idx (parameters circuit)))"
    using param_idx_from_found[of param "parameters circuit" 0] by (simp add: param_idx_def)
  have absent: "param \<notin> set (parameters circuit) \<Longrightarrow>
      param_idx circuit param = Inl (ValueError (''Parameter '' @ name param @ '' not found''))"
    by (simp add: param_idx_def param_idx_from_absent)
  have "(\<exists>msg. param_idx circuit param = Inl (ValueError msg)) \<longleftrightarrow> param \<notin> set (parameters circuit)"
  proof
    assume "\<exists>msg. param_idx circuit param = Inl (ValueError msg)"
    then show "param \<notin> set (parameters circuit)" using found by auto
  next
    assume "param \<notin> set (parameters circuit)"
    then show "\<exists>msg. param_idx circuit param = Inl (ValueError msg)" using absent by blast
  qed
  with found absent show ?thesis by blast
qed

theorem param_idx_found_or_ValueError_witness:
  "Parameter ''t0'' \<in> set (parameters cr_circuit)
   \<and> param_idx cr_circuit (Parameter ''t0'') = Inr 1
   \<and> Parameter ''p7'' \<notin> set (parameters cr_circuit)
   \<and> param_idx cr_circuit (Parameter ''p7'') = Inl (ValueError ''Parameter p7 not found'')"
proof -
  have a: "Parameter ''t0'' \<in> set (parameters cr_circuit)"
    by (simp add: parameters_cr_circuit)
  from param_idx_found_or_ValueError[of "Parameter ''t0''" cr_circuit] a
  obtain idx where idx: "param_idx cr_circuit (Parameter ''t0'') = Inr idx"
    "idx < length (parameters cr_circuit)" "parameters cr_circuit ! idx = Parameter ''t0''"
    by blast
  then have "idx = 1"
    by (cases idx) (simp_all add: parameters_cr_circuit)
  with idx have t0: "param_idx cr_circuit (Parameter ''t0'') = Inr 1" by simp
  have b: "Parameter ''p7'' \<notin> set (parameters cr_circuit)"
    by (simp add: parameters_cr_circuit)
  with param_idx_found_or_ValueError[of "Parameter ''p7''" cr_circuit]
  have p7: "param_idx cr_circuit (Parameter ''p7'') = Inl (ValueError ''Parameter p7 not found'')"
    by simp
  from a t0 b p7 show ?thesis by simp
qed

section \<open>The Heisenberg Hamiltonian\<close>

lemma foldl_ham_step:
  "foldl ham_step ham edges = ham @ concat (map spec_edge_terms edges)"
  by (induction edges arbitrary: ham) (auto simp: ham_step_def spec_edge_terms_def)

text \<open>
  Called with the default display format, \<^verbatim>\<open>second_q_ops\<close> hands to
  \<^verbatim>\<open>SpinOp\<close> the terms of the edges in the order of the edge list and nothing else: a
  self-loop on node \<open>a\<close> with weight \<open>w\<close> gives the one term \<^verbatim>\<open>X_a\<close> with
  coefficient \<open>w\<close>, an edge between distinct nodes \<open>a\<close> and \<open>b\<close> gives the three terms
  \<^verbatim>\<open>X_a X_b\<close>, \<^verbatim>\<open>Y_a Y_b\<close>, \<^verbatim>\<open>Z_a Z_b\<close>, each with coefficient \<open>w\<close>.
\<close>

lemma second_q_ops_terms:
  "second_q_ops None lat =
     Inr \<lparr>terms = concat (map spec_edge_terms (weighted_edge_list lat)), spin = 1 / 2,
          register_length = num_nodes lat\<rparr>
   \<and> spec_edge_terms (a, a, w) = [(''X_'' @ str_nat a, w)]
   \<and> (a \<noteq> b \<longrightarrow> spec_edge_terms (a, b, w) =
        [(''X_'' @ str_nat a @ '' X_'' @ str_nat b, w),
         (''Y_'' @ str_nat a @ '' Y_'' @ str_nat b, w),
         (''Z_'' @ str_nat a @ '' Z_'' @ str_nat b, w)])"
  by (simp add: second_q_ops_def foldl_ham_step spec_edge_terms_def)

lemma second_q_ops_terms_example:
  "(0::nat) \<noteq> 1
   \<and> second_q_ops None two_edge_lattice =
       Inr \<lparr>terms = [(''X_0'', 3), (''X_0 X_1'', 5), (''Y_0 Y_1'', 5), (''Z_0 Z_1'', 5)],
            spin = 1 / 2, register_length = 2\<rparr>"
proof -
  have s0: "str_nat 0 = ''0''" by code_simp
  have s1: "str_nat 1 = ''1''" by code_simp
  have ne: "(0::nat) \<noteq> 1" by simp
  have e0: "spec_edge_terms (0, 0, 3::int) = [(''X_0'', 3)]"
    using second_q_ops_terms[where lat = two_edge_lattice and a = 0 and b = 1 and w = "3::int"]
    by (simp only: s0) simp
  have "spec_edge_terms (0, 1, 5::int) =
        [(''X_'' @ str_nat 0 @ '' X_'' @ str_nat 1, 5),
         (''Y_'' @ str_nat 0 @ '' Y_'' @ str_nat 1, 5),
         (''Z_'' @ str_nat 0 @ '' Z_'' @ str_nat 1, 5)]"
    using second_q_ops_terms[where lat = two_edge_lattice and a = 0 and b = 1 and w = "5::int"] ne
    by blast
  then have e1: "spec_edge_terms (0, 1, 5::int) =
      [(''X_0 X_1'', 5), (''Y_0 Y_1'', 5), (''Z_0 Z_1'', 5)]"
    by (simp only: s0 s1) simp
  have "second_q_ops None two_edge_lattice =
     Inr \<lparr>terms = concat (map spec_edge_terms (weighted_edge_list two_edge_lattice)), spin = 1 / 2,
          register_length = num_nodes two_edge_lattice\<rparr>"
    using second_q_ops_terms[where lat = two_edge_lattice and a = 0 and b = 1 and w = "3::int"]
    by blast
  then show ?thesis
    using e0 e1 by (simp add: two_edge_lattice_def)
qed

text \<open>
  C6: \<^verbatim>\<open>second_q_ops\<close> maps the edges as the specification says only when it is
  called without a display format. The docstring promises that a display format "will be
  ignored", but the branch that warns about it uses the name \<^verbatim>\<open>logger\<close>, which the
  module never binds: with any display format the call raises \<^verbatim>\<open>NameError\<close>
  before an edge is read, and no term is produced, whatever the lattice.
\<close>

theorem second_q_ops_display_format_raises:
  "second_q_ops (Some fmt) lat = Inl (NameError ''logger'')
   \<and> second_q_ops (Some ''dense'') two_edge_lattice = Inl (NameError ''logger'')
   \<and> second_q_ops None lat =
       Inr \<lparr>terms = concat (map spec_edge_terms (weighted_edge_list lat)), spin = 1 / 2,
            register_length = num_nodes lat\<rparr>"
  by (simp add: second_q_ops_def foldl_ham_step)

section \<open>Wrapper configuration of the schedules\<close>

lemma record_wrapper_cases:
  "record_wrapper e entry circuit self = (r, self') \<Longrightarrow>
     self' = self \<and> (\<exists>err. r = Inl err)
     \<or> (\<exists>p k. e = Sym p \<and> param_idx circuit p = Inr k \<and> r = Inr e
          \<and> self' = self\<lparr>wrapper_config := (wrapper_config self)(k \<mapsto> entry (name p))\<rparr>)"
  by (auto simp: record_wrapper_def split: pexpr.splits sum.splits)

lemma try_convert_cases:
  "try_convert conv e entry circuit self = (r, self') \<Longrightarrow>
     self' = self
     \<or> (\<exists>p k. e = Sym p \<and> param_idx circuit p = Inr k \<and> r = Inr e
          \<and> self' = self\<lparr>wrapper_config := (wrapper_config self)(k \<mapsto> entry (name p))\<rparr>)"
  by (auto simp: try_convert_def split: sum.splits dest: record_wrapper_cases)

lemma try_convert_Sym:
  "conv (Sym p) = Inl err \<Longrightarrow> param_idx circuit p = Inr k \<Longrightarrow>
     try_convert conv (Sym p) entry circuit self =
       (Inr (Sym p), self\<lparr>wrapper_config := (wrapper_config self)(k \<mapsto> entry (name p))\<rparr>)"
  by (simp add: try_convert_def record_wrapper_def)

lemma self_made_control_channel_wrapper:
  "wrapper_config (snd (self_made_control_channel self qubits)) = wrapper_config self"
  by (simp add: self_made_control_channel_def Let_def split: option.splits)

lemma get_control_channel_wrapper:
  "get_control_channel self qubits = Inr (ch, self') \<Longrightarrow> wrapper_config self' = wrapper_config self"
  using self_made_control_channel_wrapper[of self qubits]
  by (auto simp: get_control_channel_def ebind_def split: option.splits sum.splits)

lemma add_rx_schedule_snd:
  "try_convert py_float p0 amp_wrapper circuit self = (r, self') \<Longrightarrow>
     snd (add_rx_schedule (p0 # rest) pqubits circuit self) = self'"
  by (auto simp: add_rx_schedule_def py_index_def split: sum.splits option.splits prod.splits)

lemma add_rx_schedule_state:
  "snd (add_rx_schedule ps pqubits circuit self) = self
   \<or> (\<exists>p k rest. ps = Sym p # rest \<and> param_idx circuit p = Inr k
        \<and> snd (add_rx_schedule ps pqubits circuit self)
            = self\<lparr>wrapper_config := (wrapper_config self)(k \<mapsto> amp_wrapper (name p))\<rparr>)"
proof (cases ps)
  case Nil
  then show ?thesis by (simp add: add_rx_schedule_def py_index_def)
next
  case (Cons p0 rest)
  obtain r self' where tc: "try_convert py_float p0 amp_wrapper circuit self = (r, self')"
    by (cases "try_convert py_float p0 amp_wrapper circuit self")
  have snd_eq: "snd (add_rx_schedule ps pqubits circuit self) = self'"
    using add_rx_schedule_snd[OF tc] Cons by simp
  from try_convert_cases[OF tc] show ?thesis
  proof
    assume "self' = self"
    with snd_eq show ?thesis by simp
  next
    assume "\<exists>p k. p0 = Sym p \<and> param_idx circuit p = Inr k \<and> r = Inr p0
          \<and> self' = self\<lparr>wrapper_config := (wrapper_config self)(k \<mapsto> amp_wrapper (name p))\<rparr>"
    with snd_eq Cons show ?thesis by auto
  qed
qed

lemma add_cr_schedule_wc_Inl:
  "try_convert py_int p0 (dur_wrapper (max_duration self)) circuit self = (Inl err, self0) \<Longrightarrow>
     wrapper_config (snd (add_cr_schedule (p0 # rest) pqubits circuit self)) = wrapper_config self0"
  by (simp add: add_cr_schedule_def py_index_def)

lemma add_cr_schedule_wc_short:
  "try_convert py_int p0 (dur_wrapper (max_duration self)) circuit self = (Inr d, self0) \<Longrightarrow>
     wrapper_config (snd (add_cr_schedule [p0] pqubits circuit self)) = wrapper_config self0"
  by (simp add: add_cr_schedule_def py_index_def)

lemma add_cr_schedule_wc_two:
  "try_convert py_int p0 (dur_wrapper (max_duration self)) circuit self = (Inr d, self0) \<Longrightarrow>
   try_convert py_float p1 amp_wrapper circuit self0 = (r1, self1) \<Longrightarrow>
     wrapper_config (snd (add_cr_schedule (p0 # p1 # rest) pqubits circuit self)) = wrapper_config self1"
  by (auto simp: add_cr_schedule_def py_index_def
      split: sum.splits prod.splits dest: get_control_channel_wrapper)

lemma add_cr_schedule_state:
  "wrapper_config (snd (add_cr_schedule ps pqubits circuit self)) = wrapper_config self
   \<or> (\<exists>p k. Sym p \<in> set (take 2 ps) \<and> param_idx circuit p = Inr k
        \<and> wrapper_config (snd (add_cr_schedule ps pqubits circuit self))
            = (wrapper_config self)(k \<mapsto> dur_wrapper (max_duration self) (name p)))
   \<or> (\<exists>p k. Sym p \<in> set (take 2 ps) \<and> param_idx circuit p = Inr k
        \<and> wrapper_config (snd (add_cr_schedule ps pqubits circuit self))
            = (wrapper_config self)(k \<mapsto> amp_wrapper (name p)))
   \<or> (\<exists>p k p' k'. Sym p \<in> set (take 2 ps) \<and> param_idx circuit p = Inr k
        \<and> Sym p' \<in> set (take 2 ps) \<and> param_idx circuit p' = Inr k'
        \<and> wrapper_config (snd (add_cr_schedule ps pqubits circuit self))
            = (wrapper_config self)(k \<mapsto> dur_wrapper (max_duration self) (name p),
                 k' \<mapsto> amp_wrapper (name p')))"
proof (cases ps)
  case Nil
  then show ?thesis by (simp add: add_cr_schedule_def py_index_def)
next
  case (Cons p0 rest)
  obtain r0 self0 where
    tc0: "try_convert py_int p0 (dur_wrapper (max_duration self)) circuit self = (r0, self0)"
    by (cases "try_convert py_int p0 (dur_wrapper (max_duration self)) circuit self")
  let ?final = "wrapper_config (snd (add_cr_schedule ps pqubits circuit self))"
  have first: "wrapper_config self0 = wrapper_config self
      \<or> (\<exists>p k. p0 = Sym p \<and> param_idx circuit p = Inr k
           \<and> wrapper_config self0 = (wrapper_config self)(k \<mapsto> dur_wrapper (max_duration self) (name p)))"
    using try_convert_cases[OF tc0] by auto
  have second: "?final = wrapper_config self0
      \<or> (\<exists>p1 rest' p k. rest = p1 # rest' \<and> p1 = Sym p \<and> param_idx circuit p = Inr k
            \<and> ?final = (wrapper_config self0)(k \<mapsto> amp_wrapper (name p)))"
  proof (cases r0)
    case (Inl err)
    with tc0 Cons show ?thesis by (simp add: add_cr_schedule_wc_Inl)
  next
    case (Inr d)
    show ?thesis
    proof (cases rest)
      case Nil
      with tc0 Inr Cons show ?thesis by (simp add: add_cr_schedule_wc_short)
    next
      case (Cons p1 rest')
      obtain r1 self1 where tc1: "try_convert py_float p1 amp_wrapper circuit self0 = (r1, self1)"
        by (cases "try_convert py_float p1 amp_wrapper circuit self0")
      have fin: "?final = wrapper_config self1"
        using add_cr_schedule_wc_two[OF _ tc1] tc0 Inr Cons \<open>ps = p0 # rest\<close> by simp
      from try_convert_cases[OF tc1] show ?thesis
      proof
        assume "self1 = self0" with fin show ?thesis by simp
      next
        assume "\<exists>p k. p1 = Sym p \<and> param_idx circuit p = Inr k \<and> r1 = Inr p1
          \<and> self1 = self0\<lparr>wrapper_config := (wrapper_config self0)(k \<mapsto> amp_wrapper (name p))\<rparr>"
        with fin Cons show ?thesis by auto
      qed
    qed
  qed
  from first show ?thesis
  proof (elim disjE exE conjE)
    assume a: "wrapper_config self0 = wrapper_config self"
    from second show ?thesis
    proof (elim disjE exE conjE)
      assume "?final = wrapper_config self0"
      with a show ?thesis by simp
    next
      fix p1 rest' p k
      assume d: "rest = p1 # rest'" "p1 = Sym p" "param_idx circuit p = Inr k"
        "?final = (wrapper_config self0)(k \<mapsto> amp_wrapper (name p))"
      with Cons have "Sym p \<in> set (take 2 ps)" by (simp add: numeral_2_eq_2)
      with d a have "\<exists>p k. Sym p \<in> set (take 2 ps) \<and> param_idx circuit p = Inr k
        \<and> ?final = (wrapper_config self)(k \<mapsto> amp_wrapper (name p))" by auto
      then show ?thesis by blast
    qed
  next
    fix pa ka
    assume b: "p0 = Sym pa" "param_idx circuit pa = Inr ka"
      "wrapper_config self0 = (wrapper_config self)(ka \<mapsto> dur_wrapper (max_duration self) (name pa))"
    with Cons have ina: "Sym pa \<in> set (take 2 ps)" by (simp add: numeral_2_eq_2)
    from second show ?thesis
    proof (elim disjE exE conjE)
      assume "?final = wrapper_config self0"
      with b ina have "\<exists>p k. Sym p \<in> set (take 2 ps) \<and> param_idx circuit p = Inr k
        \<and> ?final = (wrapper_config self)(k \<mapsto> dur_wrapper (max_duration self) (name p))" by auto
      then show ?thesis by blast
    next
      fix p1 rest' p k
      assume d: "rest = p1 # rest'" "p1 = Sym p" "param_idx circuit p = Inr k"
        "?final = (wrapper_config self0)(k \<mapsto> amp_wrapper (name p))"
      with Cons have "Sym p \<in> set (take 2 ps)" by (simp add: numeral_2_eq_2)
      with d b ina have "\<exists>p k p' k'. Sym p \<in> set (take 2 ps) \<and> param_idx circuit p = Inr k
        \<and> Sym p' \<in> set (take 2 ps) \<and> param_idx circuit p' = Inr k'
        \<and> ?final = (wrapper_config self)(k \<mapsto> dur_wrapper (max_duration self) (name p),
                 k' \<mapsto> amp_wrapper (name p'))" by auto
      then show ?thesis by blast
    qed
  qed
qed

text \<open>
  C7: every key of \<^verbatim>\<open>_wrapper_config\<close> that \<^verbatim>\<open>add_rx_schedule\<close> or
  \<^verbatim>\<open>add_cr_schedule\<close> writes is the value \<^verbatim>\<open>_param_idx\<close> returns for a
  symbolic parameter of the gate, that is, the position of that parameter in
  \<^verbatim>\<open>circuit.parameters\<close> of the circuit passed to the call; and for a symbolic
  amplitude (and duration) found in the circuit, the entry is stored under exactly that
  position. The entries stay written whatever the rest of the call does.
\<close>

theorem wrapper_config_keys_are_param_idx:
  "(wrapper_config (snd (add_rx_schedule ps pqubits circuit self)) k \<noteq> wrapper_config self k \<longrightarrow>
      (\<exists>p. Sym p \<in> set (take 1 ps) \<and> param_idx circuit p = Inr k
         \<and> k < length (parameters circuit) \<and> parameters circuit ! k = p))
   \<and> (wrapper_config (snd (add_cr_schedule ps pqubits circuit self)) k \<noteq> wrapper_config self k \<longrightarrow>
      (\<exists>p. Sym p \<in> set (take 2 ps) \<and> param_idx circuit p = Inr k
         \<and> k < length (parameters circuit) \<and> parameters circuit ! k = p))
   \<and> (param_idx circuit p = Inr i \<longrightarrow>
        wrapper_config (snd (add_rx_schedule (Sym p # rest) pqubits circuit self))
          = (wrapper_config self)(i \<mapsto> amp_wrapper (name p)))
   \<and> (param_idx circuit pd = Inr kd \<and> param_idx circuit pa = Inr ka \<longrightarrow>
        wrapper_config (snd (add_cr_schedule (Sym pd # Sym pa # rest) pqubits circuit self))
          = (wrapper_config self)(kd \<mapsto> dur_wrapper (max_duration self) (name pd),
               ka \<mapsto> amp_wrapper (name pa)))"
proof (intro conjI impI)
  assume changed: "wrapper_config (snd (add_rx_schedule ps pqubits circuit self)) k \<noteq> wrapper_config self k"
  from add_rx_schedule_state[of ps pqubits circuit self] changed
  obtain q j rest' where q: "ps = Sym q # rest'" "param_idx circuit q = Inr j"
    "snd (add_rx_schedule ps pqubits circuit self)
       = self\<lparr>wrapper_config := (wrapper_config self)(j \<mapsto> amp_wrapper (name q))\<rparr>"
    by auto
  with changed have "j = k" by (auto split: if_splits)
  with q param_idx_Inr[of circuit q j]
  show "\<exists>p. Sym p \<in> set (take 1 ps) \<and> param_idx circuit p = Inr k
         \<and> k < length (parameters circuit) \<and> parameters circuit ! k = p"
    by auto
next
  let ?final = "wrapper_config (snd (add_cr_schedule ps pqubits circuit self))"
  assume changed: "?final k \<noteq> wrapper_config self k"
  have key: "\<And>q j. Sym q \<in> set (take 2 ps) \<Longrightarrow> param_idx circuit q = Inr j \<Longrightarrow> j = k \<Longrightarrow>
     \<exists>p. Sym p \<in> set (take 2 ps) \<and> param_idx circuit p = Inr k
         \<and> k < length (parameters circuit) \<and> parameters circuit ! k = p"
    using param_idx_Inr by blast
  from add_cr_schedule_state[of ps pqubits circuit self]
  show "\<exists>p. Sym p \<in> set (take 2 ps) \<and> param_idx circuit p = Inr k
         \<and> k < length (parameters circuit) \<and> parameters circuit ! k = p"
  proof (elim disjE exE conjE)
    assume "?final = wrapper_config self"
    with changed show ?thesis by simp
  next
    fix q j
    assume a: "Sym q \<in> set (take 2 ps)" "param_idx circuit q = Inr j"
      "?final = (wrapper_config self)(j \<mapsto> dur_wrapper (max_duration self) (name q))"
    with changed have "j = k" by (auto split: if_splits)
    with a key show ?thesis by blast
  next
    fix q j
    assume a: "Sym q \<in> set (take 2 ps)" "param_idx circuit q = Inr j"
      "?final = (wrapper_config self)(j \<mapsto> amp_wrapper (name q))"
    with changed have "j = k" by (auto split: if_splits)
    with a key show ?thesis by blast
  next
    fix q j q' j'
    assume a: "Sym q \<in> set (take 2 ps)" "param_idx circuit q = Inr j"
      "Sym q' \<in> set (take 2 ps)" "param_idx circuit q' = Inr j'"
      "?final = (wrapper_config self)(j \<mapsto> dur_wrapper (max_duration self) (name q),
                 j' \<mapsto> amp_wrapper (name q'))"
    with changed have "j = k \<or> j' = k" by (auto split: if_splits)
    with a key show ?thesis by blast
  qed
next
  assume idx: "param_idx circuit p = Inr i"
  have "py_float (Sym p) = Inl TypeError" by (simp add: py_float_def)
  then
  have "try_convert py_float (Sym p) amp_wrapper circuit self =
      (Inr (Sym p), self\<lparr>wrapper_config := (wrapper_config self)(i \<mapsto> amp_wrapper (name p))\<rparr>)"
    using idx by (rule try_convert_Sym[where conv = py_float])
  from add_rx_schedule_snd[OF this]
  show "wrapper_config (snd (add_rx_schedule (Sym p # rest) pqubits circuit self))
          = (wrapper_config self)(i \<mapsto> amp_wrapper (name p))"
    by simp
next
  assume "param_idx circuit pd = Inr kd \<and> param_idx circuit pa = Inr ka"
  then have idx0: "param_idx circuit pd = Inr kd" and idx1: "param_idx circuit pa = Inr ka"
    by simp_all
  let ?self0 = "self\<lparr>wrapper_config := (wrapper_config self)(kd \<mapsto> dur_wrapper (max_duration self) (name pd))\<rparr>"
  have "py_int (Sym pd) = Inl TypeError" by (simp add: py_int_def)
  then
  have tc0: "try_convert py_int (Sym pd) (dur_wrapper (max_duration self)) circuit self
      = (Inr (Sym pd), ?self0)"
    using idx0 by (rule try_convert_Sym[where conv = py_int])
  have "py_float (Sym pa) = Inl TypeError" by (simp add: py_float_def)
  then
  have tc1: "try_convert py_float (Sym pa) amp_wrapper circuit ?self0
      = (Inr (Sym pa), ?self0\<lparr>wrapper_config := (wrapper_config ?self0)(ka \<mapsto> amp_wrapper (name pa))\<rparr>)"
    using idx1 by (rule try_convert_Sym[where conv = py_float])
  from add_cr_schedule_wc_two[OF tc0 tc1]
  show "wrapper_config (snd (add_cr_schedule (Sym pd # Sym pa # rest) pqubits circuit self))
          = (wrapper_config self)(kd \<mapsto> dur_wrapper (max_duration self) (name pd),
               ka \<mapsto> amp_wrapper (name pa))"
    by simp
qed

theorem wrapper_config_keys_are_param_idx_witness:
  "param_idx cr_circuit (Parameter ''t0'') = Inr 1
   \<and> param_idx cr_circuit (Parameter ''phi1'') = Inr 0
   \<and> wrapper_config sim_builder 1 = None
   \<and> wrapper_config (snd (add_rx_schedule [Sym (Parameter ''t0''), Sym (Parameter ''phi1'')] [0, 1]
         cr_circuit sim_builder)) 1 = Some (''SinWrapper'', (1, 1, 0, 0), ''amp[t0]'')
   \<and> wrapper_config (snd (add_cr_schedule [Sym (Parameter ''t0''), Sym (Parameter ''phi1'')] [0, 1]
         cr_circuit sim_builder)) 1 = Some (''SinDurationWrapper'', (400, 1, 656, 160), ''dur[t0]'')
   \<and> wrapper_config (snd (add_cr_schedule [Sym (Parameter ''t0''), Sym (Parameter ''phi1'')] [0, 1]
         cr_circuit sim_builder)) 0 = Some (''SinWrapper'', (1, 1, 0, 0), ''amp[phi1]'')
   \<and> (\<exists>p. Sym p \<in> set (take 1 [Sym (Parameter ''t0''), Sym (Parameter ''phi1'')])
         \<and> param_idx cr_circuit p = Inr 1 \<and> parameters cr_circuit ! 1 = p)
   \<and> (\<exists>p. Sym p \<in> set (take 2 [Sym (Parameter ''t0''), Sym (Parameter ''phi1'')])
         \<and> param_idx cr_circuit p = Inr 1 \<and> parameters cr_circuit ! 1 = p)"
proof -
  let ?ps = "[Sym (Parameter ''t0''), Sym (Parameter ''phi1'')]"
  have t0: "param_idx cr_circuit (Parameter ''t0'') = Inr 1"
    by (simp add: param_idx_def parameters_cr_circuit)
  have phi1: "param_idx cr_circuit (Parameter ''phi1'') = Inr 0"
    by (simp add: param_idx_def parameters_cr_circuit)
  have empty: "wrapper_config sim_builder = Map.empty"
    by (simp add: sim_builder_def AnsatzBuilder_init_def)
  have md: "max_duration sim_builder = 800"
    by (simp add: sim_builder_def AnsatzBuilder_init_def)
  note inst1 = wrapper_config_keys_are_param_idx[where ps = ?ps and pqubits = "[0, 1]"
      and circuit = cr_circuit and self = sim_builder and k = 1 and p = "Parameter ''t0''"
      and i = 1 and rest = "[Sym (Parameter ''phi1'')]"]
  note inst2 = wrapper_config_keys_are_param_idx[where ps = ?ps and pqubits = "[0, 1]"
      and circuit = cr_circuit and self = sim_builder and k = 1 and pd = "Parameter ''t0''"
      and pa = "Parameter ''phi1''" and kd = 1 and ka = 0 and rest = "[]"]
  from inst1 t0 have rx: "wrapper_config (snd (add_rx_schedule ?ps [0, 1] cr_circuit sim_builder))
      = (wrapper_config sim_builder)(1 \<mapsto> amp_wrapper ''t0'')"
    by simp
  from inst2 t0 phi1
  have cr: "wrapper_config (snd (add_cr_schedule ?ps [0, 1] cr_circuit sim_builder))
      = (wrapper_config sim_builder)(1 \<mapsto> dur_wrapper (max_duration sim_builder) ''t0'',
           0 \<mapsto> amp_wrapper ''phi1'')"
    by simp
  have changed: "wrapper_config (snd (add_cr_schedule ?ps [0, 1] cr_circuit sim_builder)) 1
      \<noteq> wrapper_config sim_builder 1"
    by (simp add: cr empty)
  with inst2 have ex: "\<exists>p. Sym p \<in> set (take 2 ?ps) \<and> param_idx cr_circuit p = Inr 1
      \<and> parameters cr_circuit ! 1 = p"
    by blast
  have r1: "wrapper_config (snd (add_rx_schedule ?ps [0, 1] cr_circuit sim_builder)) 1
      = Some (''SinWrapper'', (1, 1, 0, 0), ''amp[t0]'')"
    by (simp add: rx amp_wrapper_def)
  have c1: "wrapper_config (snd (add_cr_schedule ?ps [0, 1] cr_circuit sim_builder)) 1
      = Some (''SinDurationWrapper'', (400, 1, 656, 160), ''dur[t0]'')"
    by (simp add: cr md dur_wrapper_def)
  have c0: "wrapper_config (snd (add_cr_schedule ?ps [0, 1] cr_circuit sim_builder)) 0
      = Some (''SinWrapper'', (1, 1, 0, 0), ''amp[phi1]'')"
    by (simp add: cr amp_wrapper_def)
  have "wrapper_config (snd (add_rx_schedule ?ps [0, 1] cr_circuit sim_builder)) 1
      \<noteq> wrapper_config sim_builder 1"
    by (simp add: rx empty)
  with inst1 have ex1: "\<exists>p. Sym p \<in> set (take 1 ?ps) \<and> param_idx cr_circuit p = Inr 1
      \<and> parameters cr_circuit ! 1 = p"
    by blast
  from t0 phi1 empty r1 c1 c0 ex ex1 show ?thesis by simp
qed

section \<open>Gates on qubits of the circuit\<close>

lemma append_circ_ok:
  assumes "list_all (\<lambda>q. 0 \<le> q \<and> q < num_qubits c) qargs"
    and "length qargs = op_num_qubits g" and "distinct qargs"
  shows "append_circ c g qargs = Inr (c\<lparr>data := data c @ [(g, qargs)]\<rparr>)"
proof -
  from assms(1) have m: "map (qubit_index c) qargs = qargs"
    by (intro map_idI) (auto simp: list_all_iff qubit_index_def)
  from assms(1) have "list_all (\<lambda>q. - num_qubits c \<le> q \<and> q < num_qubits c) qargs"
    by (auto simp: list_all_iff)
  with m assms(2,3) show ?thesis by (simp add: append_circ_def)
qed

lemma gate1_ok:
  "0 \<le> q \<Longrightarrow> q < num_qubits c \<Longrightarrow>
     append_circ c (gate1 nm ps) [q] = Inr (c\<lparr>data := data c @ [(gate1 nm ps, [q])]\<rparr>)"
  by (rule append_circ_ok) (simp_all add: gate1_def)

lemma gate2_ok:
  "0 \<le> a \<Longrightarrow> a < num_qubits c \<Longrightarrow> 0 \<le> b \<Longrightarrow> b < num_qubits c \<Longrightarrow> a \<noteq> b \<Longrightarrow>
     append_circ c (gate2 nm ps) [a, b] = Inr (c\<lparr>data := data c @ [(gate2 nm ps, [a, b])]\<rparr>)"
  by (rule append_circ_ok) (simp_all add: gate2_def)

lemma for_loop_id:
  assumes "\<And>i. i \<in> set xs \<Longrightarrow> body i s = Inr s"
  shows "for_loop xs body s = Inr s"
  using for_loop_inv[where I = "\<lambda>s'. s' = s" and xs = xs and body = body and s = s] assms
  by auto

section \<open>The RVB circuit for every qubit count\<close>

lemma add_eSWAP_ok:
  "\<exists>g self'. add_eSWAP self = Inr (g, self') \<and> op_num_qubits g = 2 \<and> op_name g = ''eSWAP''"
  by (simp add: add_eSWAP_def QuantumCircuit_def cnot_def cx_def crx_def x_def rz_def
      gate1_ok gate2_ok new_param_def Let_def to_gate_def)

lemma append_eSWAP_ok:
  assumes "num_qubits ansatz = n" "0 \<le> a" "a < n" "0 \<le> b" "b < n" "a \<noteq> b"
  shows "\<exists>ansatz' self'. append_eSWAP [a, b] (ansatz, self) = Inr (ansatz', self')
           \<and> num_qubits ansatz' = n"
proof -
  from add_eSWAP_ok[of self] obtain g self' where
    g: "add_eSWAP self = Inr (g, self')" "op_num_qubits g = 2" by blast
  have "append_circ ansatz g [a, b] = Inr (ansatz\<lparr>data := data ansatz @ [(g, [a, b])]\<rparr>)"
    using assms g by (intro append_circ_ok) simp_all
  with g assms show ?thesis by (simp add: append_eSWAP_def)
qed

lemma RVB_circuit_even:
  assumes "even (RVB_num_qubits self)" "0 \<le> RVB_num_qubits self"
  shows "\<exists>c self'. RVB_circuit self = Inr (c, self') \<and> num_qubits c = RVB_num_qubits self"
proof -
  let ?n = "RVB_num_qubits self"
  let ?c0 = "\<lparr>circ_name = ''RVB'', num_qubits = ?n, data = [], calibrations = []\<rparr>"
  have qc: "QuantumCircuit ?n ''RVB'' = Inr ?c0"
    using assms by (simp add: QuantumCircuit_def)
  have "\<exists>c1. for_loop (py_range 0 ?n 1) (\<lambda>i ansatz. x ansatz i) ?c0 = Inr c1 \<and> num_qubits c1 = ?n"
  proof (rule for_loop_inv)
    show "num_qubits ?c0 = ?n" by simp
  next
    fix i and s :: circuit assume "i \<in> set (py_range 0 ?n 1)" "num_qubits s = ?n"
    with py_range_up_set[of 1 i 0 ?n] show "\<exists>s'. x s i = Inr s' \<and> num_qubits s' = ?n"
      by (simp add: x_def gate1_ok)
  qed
  then obtain c1 where c1: "for_loop (py_range 0 ?n 1) (\<lambda>i ansatz. x ansatz i) ?c0 = Inr c1"
    "num_qubits c1 = ?n" by blast
  let ?bell = "\<lambda>j ansatz. if j mod 2 = 0 then ebind (h ansatz j) (\<lambda>ansatz. cx ansatz j (j + 1))
                              else Inr ansatz"
  have "\<exists>c2. for_loop (py_range 0 ?n 1) ?bell c1 = Inr c2 \<and> num_qubits c2 = ?n"
  proof (rule for_loop_inv)
    show "num_qubits c1 = ?n" by (rule c1)
  next
    fix j and s :: circuit assume j: "j \<in> set (py_range 0 ?n 1)" and s: "num_qubits s = ?n"
    from py_range_up_set[OF _ j] have b: "0 \<le> j" "j < ?n" by simp_all
    show "\<exists>s'. ?bell j s = Inr s' \<and> num_qubits s' = ?n"
    proof (cases "j mod 2 = 0")
      case True
      with b assms(1) have "j + 1 < ?n" by presburger
      with b s True show ?thesis by (simp add: h_def cx_def gate1_ok gate2_ok)
    next
      case False
      with s show ?thesis by simp
    qed
  qed
  then obtain c2 where c2: "for_loop (py_range 0 ?n 1) ?bell c1 = Inr c2" "num_qubits c2 = ?n"
    by blast
  let ?down = "\<lambda>l. if l < ?n - 1 then append_eSWAP [l, l + 1] else append_eSWAP [l, 0]"
  let ?rep = "\<lambda>k st. ebind (for_loop (py_range (?n - 1) 0 (- 2)) ?down st) (\<lambda>st.
             for_loop (py_range 0 (?n - 1) 2) (\<lambda>l. append_eSWAP [l, l + 1]) st)"
  let ?I = "\<lambda>st. num_qubits (fst st) = ?n"
  have down: "\<exists>st'. for_loop (py_range (?n - 1) 0 (- 2)) ?down st = Inr st' \<and> ?I st'"
    if "?I st" for st :: "circuit \<times> RVB"
  proof (rule for_loop_inv[where I = ?I])
    show "?I st" by (rule that)
  next
    fix l and s :: "circuit \<times> RVB" assume l: "l \<in> set (py_range (?n - 1) 0 (- 2))" and s: "?I s"
    from py_range_down_set[OF _ l] have b: "0 < l" "l \<le> ?n - 1" by simp_all
    obtain a r where ar: "s = (a, r)" by (cases s)
    show "\<exists>s'. ?down l s = Inr s' \<and> ?I s'"
    proof (cases "l < ?n - 1")
      case True
      with b s ar append_eSWAP_ok[of a ?n l "l + 1" r] show ?thesis by auto
    next
      case False
      with b s ar append_eSWAP_ok[of a ?n l 0 r] show ?thesis by auto
    qed
  qed
  have up: "\<exists>st'. for_loop (py_range 0 (?n - 1) 2) (\<lambda>l. append_eSWAP [l, l + 1]) st = Inr st' \<and> ?I st'"
    if "?I st" for st :: "circuit \<times> RVB"
  proof (rule for_loop_inv[where I = ?I])
    show "?I st" by (rule that)
  next
    fix l and s :: "circuit \<times> RVB" assume l: "l \<in> set (py_range 0 (?n - 1) 2)" and s: "?I s"
    from py_range_up_set[OF _ l] have b: "0 \<le> l" "l < ?n - 1" by simp_all
    obtain a r where ar: "s = (a, r)" by (cases s)
    with b s append_eSWAP_ok[of a ?n l "l + 1" r]
    show "\<exists>s'. append_eSWAP [l, l + 1] s = Inr s' \<and> ?I s'" by auto
  qed
  have "\<exists>st'. for_loop (py_range 0 (RVB_reps self) 1) ?rep (c2, self) = Inr st' \<and> ?I st'"
  proof (rule for_loop_inv[where I = ?I])
    show "?I (c2, self)" using c2 by simp
  next
    fix k and s :: "circuit \<times> RVB" assume "?I s"
    from down[OF this] obtain s1 where s1: "for_loop (py_range (?n - 1) 0 (- 2)) ?down s = Inr s1" "?I s1"
      by blast
    from up[OF s1(2)] obtain s2 where
      "for_loop (py_range 0 (?n - 1) 2) (\<lambda>l. append_eSWAP [l, l + 1]) s1 = Inr s2" "?I s2" by blast
    with s1 show "\<exists>s'. ?rep k s = Inr s' \<and> ?I s'" by simp
  qed
  then obtain c3 self' where
    "for_loop (py_range 0 (RVB_reps self) 1) ?rep (c2, self) = Inr (c3, self')" "num_qubits c3 = ?n"
    by auto
  with qc c1 c2 assms show ?thesis
    by (simp add: RVB_circuit_def Let_def)
qed

lemma RVB_circuit_odd:
  "odd (RVB_num_qubits self) \<Longrightarrow>
     RVB_circuit self = Inl (CircuitError ''The number of qubits should be even!'')"
  by (simp add: RVB_circuit_def Let_def odd_iff_mod_2_eq_one)

section \<open>The Hamiltonian-variational circuit for every qubit count\<close>

lemma gate_names_append [simp]:
  "gate_names (c\<lparr>data := data c @ [(g, qs)]\<rparr>) = gate_names c @ [op_name g]"
  by (simp add: gate_names_def)

lemma count_ops_gate_names: "count_ops nm c = length (filter (\<lambda>s. s = nm) (gate_names c))"
  by (simp add: count_ops_def gate_names_def filter_map comp_def split_def)

lemma count_ops_absent: "nm \<notin> set (gate_names c) \<Longrightarrow> count_ops nm c = 0"
  by (auto simp: count_ops_gate_names filter_empty_conv)

lemma HVA_rotations_ok:
  assumes "num_qubits ansatz = n" "0 \<le> a" "a < n" "0 \<le> b" "b < n" "a \<noteq> b"
    and "set (gate_names ansatz) \<subseteq> HVA_gates"
  shows "\<exists>ansatz' self'. HVA_rotations paramstr a b (ansatz, self) = Inr (ansatz', self')
           \<and> num_qubits ansatz' = n \<and> set (gate_names ansatz') \<subseteq> HVA_gates"
  using assms
  by (simp add: HVA_rotations_def new_param_def Let_def rzz_def ryy_def rxx_def gate2_ok)
     (simp add: gate2_def gate_names_def)

lemma HVA_x_init_ok:
  assumes "num_qubits ansatz = n" "0 \<le> n" "set (gate_names ansatz) \<subseteq> HVA_gates"
  shows "\<exists>ansatz'. HVA_x_init n ansatz = Inr (ansatz', if n = 0 then None else Some (n - 1))
           \<and> num_qubits ansatz' = n \<and> set (gate_names ansatz') \<subseteq> HVA_gates"
proof -
  let ?xs = "py_range 0 n 1"
  let ?body = "\<lambda>i (ansatz, _ :: int option). ebind (x ansatz i) (\<lambda>ansatz. Inr (ansatz, Some i))"
  let ?I = "\<lambda>k (st :: circuit \<times> int option). num_qubits (fst st) = n
      \<and> set (gate_names (fst st)) \<subseteq> HVA_gates
      \<and> snd st = (if k = 0 then None else Some (int k - 1))"
  have len: "length ?xs = nat n" by (simp add: py_range_up_length)
  have "\<exists>s'. for_loop ?xs ?body (ansatz, None) = Inr s' \<and> ?I (length ?xs) s'"
  proof (rule for_loop_inv_nth[where I = ?I])
    show "?I 0 (ansatz, None)" using assms by simp
  next
    fix k and s :: "circuit \<times> int option" assume k: "k < length ?xs" and s: "?I k s"
    obtain a i where ai: "s = (a, i)" by (cases s)
    from k have nth: "?xs ! k = int k" by (simp add: py_range_up_nth)
    from k len have "int k < n" by simp
    with s ai nth show "\<exists>s'. ?body (?xs ! k) s = Inr s' \<and> ?I (Suc k) s'"
      by (simp add: x_def gate1_ok) (simp add: gate1_def)
  qed
  then obtain a' i' where r: "for_loop ?xs ?body (ansatz, None) = Inr (a', i')"
    "num_qubits a' = n" "set (gate_names a') \<subseteq> HVA_gates"
    "i' = (if length ?xs = 0 then None else Some (int (length ?xs) - 1))" by auto
  from r(4) len assms(2) have "i' = (if n = 0 then None else Some (n - 1))" by auto
  with r show ?thesis by (simp add: HVA_x_init_def)
qed

lemma HVA_bell_odd:
  assumes "odd i"
  shows "HVA_bell n (Some i) ansatz = Inr ansatz"
  unfolding HVA_bell_def
  by (rule for_loop_id) (use assms in \<open>simp add: odd_iff_mod_2_eq_one\<close>)

lemma HVA_bell_zero: "HVA_bell 0 i ansatz = Inr ansatz"
  by (simp add: HVA_bell_def py_range_up_empty)

lemma HVA_layers_ok:
  assumes "num_qubits ansatz = n" "0 \<le> n" "even n" "set (gate_names ansatz) \<subseteq> HVA_gates"
  shows "\<exists>ansatz' self'. HVA_layers n reps (ansatz, self) = Inr (ansatz', self')
           \<and> num_qubits ansatz' = n \<and> set (gate_names ansatz') \<subseteq> HVA_gates"
proof -
  let ?I = "\<lambda>st :: circuit \<times> HVAnsatz. num_qubits (fst st) = n \<and> set (gate_names (fst st)) \<subseteq> HVA_gates"
  let ?odd = "\<lambda>i. if i < n - 1 then HVA_rotations ''phi'' i (i + 1) else HVA_rotations ''phi'' i 0"
  let ?even = "\<lambda>i. HVA_rotations ''gamma'' i (i + 1)"
  have odd_layer: "\<exists>st'. for_loop (py_range (n - 1) 0 (- 2)) ?odd st = Inr st' \<and> ?I st'"
    if "?I st" for st
  proof (rule for_loop_inv[where I = ?I])
    show "?I st" by (rule that)
  next
    fix i and s :: "circuit \<times> HVAnsatz"
    assume i: "i \<in> set (py_range (n - 1) 0 (- 2))" and s: "?I s"
    from py_range_down_set[OF _ i] have b: "0 < i" "i \<le> n - 1" by simp_all
    obtain a r where ar: "s = (a, r)" by (cases s)
    show "\<exists>s'. ?odd i s = Inr s' \<and> ?I s'"
    proof (cases "i < n - 1")
      case True
      with b s ar HVA_rotations_ok[of a n i "i + 1" "''phi''" r] show ?thesis by auto
    next
      case False
      with b s ar HVA_rotations_ok[of a n i 0 "''phi''" r] show ?thesis by auto
    qed
  qed
  have even_layer: "\<exists>st'. for_loop (py_range 0 n 2) ?even st = Inr st' \<and> ?I st'"
    if "?I st" for st
  proof (rule for_loop_inv[where I = ?I])
    show "?I st" by (rule that)
  next
    fix i and s :: "circuit \<times> HVAnsatz"
    assume i: "i \<in> set (py_range 0 n 2)" and s: "?I s"
    from py_range_up_set[OF _ i] have b: "0 \<le> i" "i < n" "i mod 2 = 0" by simp_all
    with assms(3) have "i + 1 < n" by presburger
    obtain a r where ar: "s = (a, r)" by (cases s)
    with b s \<open>i + 1 < n\<close> HVA_rotations_ok[of a n i "i + 1" "''gamma''" r]
    show "\<exists>s'. ?even i s = Inr s' \<and> ?I s'" by auto
  qed
  have "\<exists>st'. for_loop (py_range 0 reps 1)
      (\<lambda>j st. ebind (for_loop (py_range (n - 1) 0 (- 2)) ?odd st) (\<lambda>st.
          for_loop (py_range 0 n 2) ?even st)) (ansatz, self) = Inr st' \<and> ?I st'"
  proof (rule for_loop_inv[where I = ?I])
    show "?I (ansatz, self)" using assms by simp
  next
    fix j :: int and s :: "circuit \<times> HVAnsatz" assume "?I s"
    from odd_layer[OF this] obtain s1 where
      s1: "for_loop (py_range (n - 1) 0 (- 2)) ?odd s = Inr s1" "?I s1" by blast
    from even_layer[OF s1(2)] obtain s2 where
      "for_loop (py_range 0 n 2) ?even s1 = Inr s2" "?I s2" by blast
    with s1 show "\<exists>s'. ebind (for_loop (py_range (n - 1) 0 (- 2)) ?odd s) (\<lambda>st.
          for_loop (py_range 0 n 2) ?even st) = Inr s' \<and> ?I s'" by simp
  qed
  then show ?thesis by (auto simp: HVA_layers_def)
qed

lemma HVA_circuit_even:
  assumes "even (HVA_num_qubits self)" "0 \<le> HVA_num_qubits self"
  shows "\<exists>c self'. HVA_circuit self = Inr (c, self') \<and> num_qubits c = HVA_num_qubits self
           \<and> set (gate_names c) \<subseteq> HVA_gates"
proof -
  let ?n = "HVA_num_qubits self"
  let ?c0 = "\<lparr>circ_name = ''HVA'', num_qubits = ?n, data = [], calibrations = []\<rparr>"
  have qc: "QuantumCircuit ?n ''HVA'' = Inr ?c0"
    using assms by (simp add: QuantumCircuit_def)
  from HVA_x_init_ok[of ?c0 ?n] assms obtain c1 where
    c1: "HVA_x_init ?n ?c0 = Inr (c1, if ?n = 0 then None else Some (?n - 1))"
      "num_qubits c1 = ?n" "set (gate_names c1) \<subseteq> HVA_gates"
    by (auto simp: gate_names_def)
  have bell: "HVA_bell ?n (if ?n = 0 then None else Some (?n - 1)) c1 = Inr c1"
  proof (cases "?n = 0")
    case True
    then show ?thesis by (simp add: HVA_bell_zero)
  next
    case False
    with assms(1) show ?thesis by (simp add: HVA_bell_odd)
  qed
  from HVA_layers_ok[of c1 ?n "HVA_reps self" self] c1 assms obtain c2 self' where
    "HVA_layers ?n (HVA_reps self) (c1, self) = Inr (c2, self')" "num_qubits c2 = ?n"
    "set (gate_names c2) \<subseteq> HVA_gates" by blast
  with qc c1 bell assms show ?thesis
    by (simp add: HVA_circuit_def Let_def)
qed

lemma HVA_circuit_odd:
  "odd (HVA_num_qubits self) \<Longrightarrow>
     HVA_circuit self = Inl (CircuitError ''The number of qubits should be even!'')"
  by (simp add: HVA_circuit_def Let_def odd_iff_mod_2_eq_one)

text \<open>
  C4: for every even qubit count (a count is not negative), \<^verbatim>\<open>RVB.circuit()\<close> and
  \<^verbatim>\<open>HVAnsatz.circuit()\<close> return a circuit on that many qubits, whatever the
  repetition count and the parameters the builder already holds; for every odd qubit
  count both raise \<^verbatim>\<open>CircuitError("The number of qubits should be even!")\<close>, at
  the guard that precedes the construction of the circuit.
\<close>

theorem even_succeeds_odd_raises:
  "(even (RVB_num_qubits r) \<and> 0 \<le> RVB_num_qubits r \<longrightarrow>
      (\<exists>c r'. RVB_circuit r = Inr (c, r') \<and> num_qubits c = RVB_num_qubits r))
   \<and> (odd (RVB_num_qubits r) \<longrightarrow>
      RVB_circuit r = Inl (CircuitError ''The number of qubits should be even!''))
   \<and> (even (HVA_num_qubits v) \<and> 0 \<le> HVA_num_qubits v \<longrightarrow>
      (\<exists>c v'. HVA_circuit v = Inr (c, v') \<and> num_qubits c = HVA_num_qubits v))
   \<and> (odd (HVA_num_qubits v) \<longrightarrow>
      HVA_circuit v = Inl (CircuitError ''The number of qubits should be even!''))"
proof (intro conjI impI)
  assume "even (RVB_num_qubits r) \<and> 0 \<le> RVB_num_qubits r"
  then show "\<exists>c r'. RVB_circuit r = Inr (c, r') \<and> num_qubits c = RVB_num_qubits r"
    using RVB_circuit_even[of r] by simp
next
  assume "odd (RVB_num_qubits r)"
  then show "RVB_circuit r = Inl (CircuitError ''The number of qubits should be even!'')"
    by (rule RVB_circuit_odd)
next
  assume "even (HVA_num_qubits v) \<and> 0 \<le> HVA_num_qubits v"
  then show "\<exists>c v'. HVA_circuit v = Inr (c, v') \<and> num_qubits c = HVA_num_qubits v"
    using HVA_circuit_even[of v] by blast
next
  assume "odd (HVA_num_qubits v)"
  then show "HVA_circuit v = Inl (CircuitError ''The number of qubits should be even!'')"
    by (rule HVA_circuit_odd)
qed

theorem even_succeeds_odd_raises_witness:
  "even (4::int) \<and> (0::int) \<le> 4 \<and> odd (3::int)
   \<and> (\<exists>c r'. RVB_circuit (RVB_init 4 1) = Inr (c, r') \<and> num_qubits c = 4)
   \<and> (\<exists>c v'. HVA_circuit (HVA_init 4 1) = Inr (c, v') \<and> num_qubits c = 4)
   \<and> RVB_circuit (RVB_init 3 1) = Inl (CircuitError ''The number of qubits should be even!'')
   \<and> HVA_circuit (HVA_init 3 1) = Inl (CircuitError ''The number of qubits should be even!'')"
  using even_succeeds_odd_raises[of "RVB_init 4 1" "HVA_init 4 1"]
    even_succeeds_odd_raises[of "RVB_init 3 1" "HVA_init 3 1"]
  by (simp add: RVB_init_def HVA_init_def)

text \<open>
  C3: the parity test of the Bell-pair loop of \<^verbatim>\<open>HVAnsatz.circuit\<close> reads the
  variable \<^verbatim>\<open>i\<close> of the loop before it, which that loop leaves at \<open>n - 1\<close>. For
  every even qubit count \<open>n \<ge> 2\<close> this value is odd, the Bell-pair loop leaves the
  circuit as it is, and the returned circuit has no Hadamard and no CNOT gate.
\<close>

theorem HVA_bell_pair_test_reads_stale_i:
  assumes "even n" and "2 \<le> n" and "HVA_num_qubits self = n"
  shows "(\<exists>c1. HVA_x_init n \<lparr>circ_name = ''HVA'', num_qubits = n, data = [], calibrations = []\<rparr>
            = Inr (c1, Some (n - 1)))
       \<and> (\<forall>ansatz. HVA_bell n (Some (n - 1)) ansatz = Inr ansatz)
       \<and> (\<exists>c self'. HVA_circuit self = Inr (c, self')
            \<and> count_ops ''h'' c = 0 \<and> count_ops ''cx'' c = 0)"
proof (intro conjI)
  let ?c0 = "\<lparr>circ_name = ''HVA'', num_qubits = n, data = [], calibrations = []\<rparr>"
  from HVA_x_init_ok[of ?c0 n] assms(2)
  show "\<exists>c1. HVA_x_init n ?c0 = Inr (c1, Some (n - 1))"
    by (auto simp: gate_names_def)
next
  from assms(1) have "odd (n - 1)" by simp
  then show "\<forall>ansatz. HVA_bell n (Some (n - 1)) ansatz = Inr ansatz"
    by (simp add: HVA_bell_odd)
next
  from HVA_circuit_even[of self] assms obtain c self' where
    c: "HVA_circuit self = Inr (c, self')" "set (gate_names c) \<subseteq> HVA_gates" by auto
  from c(2) have "''h'' \<notin> set (gate_names c)" "''cx'' \<notin> set (gate_names c)" by auto
  then have "count_ops ''h'' c = 0" "count_ops ''cx'' c = 0"
    by (simp_all add: count_ops_absent)
  with c(1) show "\<exists>c self'. HVA_circuit self = Inr (c, self')
            \<and> count_ops ''h'' c = 0 \<and> count_ops ''cx'' c = 0" by blast
qed

theorem HVA_bell_pair_test_reads_stale_i_witness:
  "even (4::int) \<and> (2::int) \<le> 4 \<and> HVA_num_qubits (HVA_init 4 1) = 4
   \<and> (\<exists>c self'. HVA_circuit (HVA_init 4 1) = Inr (c, self')
        \<and> count_ops ''h'' c = 0 \<and> count_ops ''cx'' c = 0)"
proof -
  have a: "even (4::int)" by simp
  have b: "(2::int) \<le> 4" by simp
  have c: "HVA_num_qubits (HVA_init 4 1) = 4" by (simp add: HVA_init_def)
  from HVA_bell_pair_test_reads_stale_i[OF a b c] a b c show ?thesis by blast
qed

section \<open>The cross-resonance layer\<close>

lemma count_ops_gates_on: "count_ops nm c = length (filter (\<lambda>(s, qs). s = nm) (gates_on c))"
  by (simp add: count_ops_def gates_on_def filter_map comp_def split_def)

lemma layer_rotation_ok:
  assumes "num_qubits ansatz = n" "0 \<le> q" "q < n"
  shows "\<exists>ansatz' b'. layer_rotation with_rz q (ansatz, b) = Inr (ansatz', b')
           \<and> num_qubits ansatz' = n
           \<and> gates_on ansatz' = gates_on ansatz
                @ (''rx'', [q]) # (if with_rz then [(''rz'', [q])] else [])"
  using assms
  by (simp add: layer_rotation_def add_rx_def new_param_def Let_def rx_def rz_def gate1_ok)
     (simp add: gates_on_def gate1_def)

lemma layer_rotations_ok:
  assumes "num_qubits ansatz = n" "0 \<le> n"
  shows "\<exists>ansatz' b'. for_loop (py_range 0 n 1) (layer_rotation with_rz) (ansatz, b) = Inr (ansatz', b')
           \<and> num_qubits ansatz' = n
           \<and> gates_on ansatz' = gates_on ansatz
                @ concat (map (\<lambda>q. (''rx'', [q]) # (if with_rz then [(''rz'', [q])] else []))
                    (py_range 0 n 1))"
proof -
  let ?xs = "py_range 0 n 1"
  let ?f = "\<lambda>q. (''rx'', [q]) # (if with_rz then [(''rz'', [q])] else [])"
  let ?I = "\<lambda>k (st :: circuit \<times> AnsatzBuilder). num_qubits (fst st) = n
      \<and> gates_on (fst st) = gates_on ansatz @ concat (map ?f (take k ?xs))"
  have "\<exists>s'. for_loop ?xs (layer_rotation with_rz) (ansatz, b) = Inr s' \<and> ?I (length ?xs) s'"
  proof (rule for_loop_inv_nth[where I = ?I])
    show "?I 0 (ansatz, b)" using assms by simp
  next
    fix k and s :: "circuit \<times> AnsatzBuilder" assume k: "k < length ?xs" and s: "?I k s"
    obtain a r where ar: "s = (a, r)" by (cases s)
    from k have "?xs ! k \<in> set ?xs" by simp
    from py_range_up_set[OF _ this] have b: "0 \<le> ?xs ! k" "?xs ! k < n" by simp_all
    from s ar have "num_qubits a = n" by simp
    from layer_rotation_ok[OF this b, of with_rz r] obtain a' r' where
      r: "layer_rotation with_rz (?xs ! k) (a, r) = Inr (a', r')" "num_qubits a' = n"
         "gates_on a' = gates_on a @ ?f (?xs ! k)" by blast
    from k have "take (Suc k) ?xs = take k ?xs @ [?xs ! k]" by (rule take_Suc_conv_app_nth)
    with r s ar show "\<exists>s'. layer_rotation with_rz (?xs ! k) s = Inr s' \<and> ?I (Suc k) s'"
      by simp
  qed
  then show ?thesis by auto
qed

text \<open>
  C10: for a qubit count that is not negative and an entanglement value that is neither
  the string \<^verbatim>\<open>"interleaved"\<close> nor a list, \<^verbatim>\<open>CRAnsatz._layer\<close> returns a circuit
  without raising; the circuit has no cross-resonance gate, and its instructions are, for
  each qubit in order, one \<^verbatim>\<open>rx\<close> followed by one \<^verbatim>\<open>rz\<close> when \<^verbatim>\<open>add_rz\<close> is
  set.
\<close>

theorem CRAnsatz_layer_without_entanglement:
  assumes "0 \<le> PA_num_qubits self"
    and "PA_entanglement self = EOther \<or> (\<exists>s. PA_entanglement self = EStr s \<and> s \<noteq> ''interleaved'')"
  shows "\<exists>c b. CRAnsatz_layer self = Inr (c, b)
           \<and> count_ops ''cr'' c = 0
           \<and> gates_on c =
               concat (map (\<lambda>q. (''rx'', [q]) # (if PA_add_rz self then [(''rz'', [q])] else []))
                 (py_range 0 (PA_num_qubits self) 1))"
proof -
  let ?n = "PA_num_qubits self"
  let ?c0 = "\<lparr>circ_name = ''circuit'', num_qubits = ?n, data = [], calibrations = []\<rparr>"
  have qc: "QuantumCircuit ?n ''circuit'' = Inr ?c0"
    using assms(1) by (simp add: QuantumCircuit_def)
  from layer_rotations_ok[of ?c0 ?n "PA_add_rz self" "builder self"] assms(1)
  obtain c b where cb:
    "for_loop (py_range 0 ?n 1) (layer_rotation (PA_add_rz self)) (?c0, builder self) = Inr (c, b)"
    "gates_on c = gates_on ?c0
       @ concat (map (\<lambda>q. (''rx'', [q]) # (if PA_add_rz self then [(''rz'', [q])] else []))
           (py_range 0 ?n 1))"
    by auto
  have g0: "gates_on ?c0 = []" by (simp add: gates_on_def)
  have layer: "CRAnsatz_layer self = Inr (c, b)"
    using assms(2) qc cb(1) by (auto simp: CRAnsatz_layer_def Let_def)
  have "count_ops ''cr'' c = 0"
    by (simp add: count_ops_gates_on cb(2) g0 filter_concat comp_def)
  with layer cb(2) g0 show ?thesis by simp
qed

theorem CRAnsatz_layer_without_entanglement_witness:
  "0 \<le> PA_num_qubits linear_ansatz
   \<and> PA_entanglement linear_ansatz = EStr ''linear'' \<and> ''linear'' \<noteq> ''interleaved''
   \<and> (\<exists>c b. CRAnsatz_layer linear_ansatz = Inr (c, b) \<and> count_ops ''cr'' c = 0
        \<and> gates_on c = [(''rx'', [0]), (''rz'', [0]), (''rx'', [1]), (''rz'', [1])])"
proof -
  have a: "0 \<le> PA_num_qubits linear_ansatz" by (simp add: linear_ansatz_def)
  have b: "PA_entanglement linear_ansatz = EOther
        \<or> (\<exists>s. PA_entanglement linear_ansatz = EStr s \<and> s \<noteq> ''interleaved'')"
    by (simp add: linear_ansatz_def)
  have r: "py_range 0 2 1 = [0, 1]" by code_simp
  have "PA_num_qubits linear_ansatz = 2" "PA_add_rz linear_ansatz"
    by (simp_all add: linear_ansatz_def)
  moreover have "PA_entanglement linear_ansatz = EStr ''linear''" "''linear'' \<noteq> ''interleaved''"
    by (simp_all add: linear_ansatz_def)
  ultimately show ?thesis
    using CRAnsatz_layer_without_entanglement[OF a b] r a by simp
qed

text \<open>
  For an even qubit count of at least 2 the interleaved layer does have the number of
  cross-resonance gates the formula gives.
\<close>

lemma layer_cr_ok:
  assumes "num_qubits ansatz = n" "0 \<le> q" "q + 1 < n"
  shows "\<exists>ansatz' b'. layer_cr [q, q + 1] (ansatz, b) = Inr (ansatz', b')
           \<and> num_qubits ansatz' = n \<and> count_ops ''cr'' ansatz' = Suc (count_ops ''cr'' ansatz)"
proof -
  have "append_circ ansatz (Operation ''cr'' 2 [Sym t, Sym phi] []) [q, q + 1] =
      Inr (ansatz\<lparr>data := data ansatz @ [(Operation ''cr'' 2 [Sym t, Sym phi] [], [q, q + 1])]\<rparr>)"
    for t phi
    using assms by (intro append_circ_ok) simp_all
  then show ?thesis
    using assms by (simp add: layer_cr_def add_cr_def new_param_def Let_def count_ops_def)
qed

lemma layer_cr_loop_ok:
  assumes "num_qubits ansatz = n" "0 \<le> start"
    and "\<And>q. q \<in> set (py_range start stop 2) \<Longrightarrow> q + 1 < n"
  shows "\<exists>ansatz' b'. for_loop (py_range start stop 2) (\<lambda>qubit. layer_cr [qubit, qubit + 1])
             (ansatz, b) = Inr (ansatz', b')
           \<and> num_qubits ansatz' = n
           \<and> count_ops ''cr'' ansatz' = count_ops ''cr'' ansatz + length (py_range start stop 2)"
proof -
  let ?xs = "py_range start stop 2"
  let ?I = "\<lambda>k (st :: circuit \<times> AnsatzBuilder). num_qubits (fst st) = n
      \<and> count_ops ''cr'' (fst st) = count_ops ''cr'' ansatz + k"
  have "\<exists>s'. for_loop ?xs (\<lambda>qubit. layer_cr [qubit, qubit + 1]) (ansatz, b) = Inr s'
      \<and> ?I (length ?xs) s'"
  proof (rule for_loop_inv_nth[where I = ?I])
    show "?I 0 (ansatz, b)" using assms by simp
  next
    fix k and s :: "circuit \<times> AnsatzBuilder" assume k: "k < length ?xs" and s: "?I k s"
    obtain a r where ar: "s = (a, r)" by (cases s)
    from k have mem: "?xs ! k \<in> set ?xs" by simp
    from py_range_up_set[OF _ mem] assms(2) have "0 \<le> ?xs ! k" by simp
    moreover from assms(3)[OF mem] have "?xs ! k + 1 < n" .
    moreover from s ar have "num_qubits a = n" by simp
    ultimately obtain a' r' where
      "layer_cr [?xs ! k, ?xs ! k + 1] (a, r) = Inr (a', r')" "num_qubits a' = n"
      "count_ops ''cr'' a' = Suc (count_ops ''cr'' a)"
      using layer_cr_ok[of a n "?xs ! k" r] by blast
    with s ar show "\<exists>s'. layer_cr [?xs ! k, ?xs ! k + 1] s = Inr s' \<and> ?I (Suc k) s'"
      by simp
  qed
  then show ?thesis by auto
qed

lemma CRAnsatz_layer_interleaved_even:
  assumes "even (PA_num_qubits self)" "2 \<le> PA_num_qubits self"
    and "PA_entanglement self = EStr ''interleaved''"
  shows "\<exists>c b. CRAnsatz_layer self = Inr (c, b)
           \<and> int (count_ops ''cr'' c) = PA_num_qubits self div 2 + (PA_num_qubits self - 1) div 2"
proof -
  let ?n = "PA_num_qubits self"
  let ?c0 = "\<lparr>circ_name = ''circuit'', num_qubits = ?n, data = [], calibrations = []\<rparr>"
  have qc: "QuantumCircuit ?n ''circuit'' = Inr ?c0"
    using assms(2) by (simp add: QuantumCircuit_def)
  from layer_rotations_ok[of ?c0 ?n "PA_add_rz self" "builder self"] assms(2)
  obtain c1 b1 where c1:
    "for_loop (py_range 0 ?n 1) (layer_rotation (PA_add_rz self)) (?c0, builder self) = Inr (c1, b1)"
    "num_qubits c1 = ?n"
    "gates_on c1 = gates_on ?c0
       @ concat (map (\<lambda>q. (''rx'', [q]) # (if PA_add_rz self then [(''rz'', [q])] else []))
           (py_range 0 ?n 1))"
    by auto
  have g0: "gates_on ?c0 = []" by (simp add: gates_on_def)
  have cnt1: "count_ops ''cr'' c1 = 0"
    by (simp add: count_ops_gates_on c1(3) g0 filter_concat comp_def)
  have in1: "q + 1 < ?n" if "q \<in> set (py_range 0 ?n 2)" for q
  proof -
    from py_range_up_set[OF _ that] have "0 \<le> q" "q < ?n" "q mod 2 = 0" by simp_all
    with assms(1) show ?thesis by presburger
  qed
  from layer_cr_loop_ok[of c1 ?n 0 ?n b1] c1(2) in1 obtain c2 b2 where c2:
    "for_loop (py_range 0 ?n 2) (\<lambda>qubit. layer_cr [qubit, qubit + 1]) (c1, b1) = Inr (c2, b2)"
    "num_qubits c2 = ?n"
    "count_ops ''cr'' c2 = count_ops ''cr'' c1 + length (py_range 0 ?n 2)"
    by auto
  have in2: "q + 1 < ?n" if "q \<in> set (py_range 1 (?n - 1) 2)" for q
    using py_range_up_set[OF _ that] by simp
  from layer_cr_loop_ok[of c2 ?n 1 "?n - 1" b2] c2(2) in2 obtain c3 b3 where c3:
    "for_loop (py_range 1 (?n - 1) 2) (\<lambda>qubit. layer_cr [qubit, qubit + 1]) (c2, b2) = Inr (c3, b3)"
    "count_ops ''cr'' c3 = count_ops ''cr'' c2 + length (py_range 1 (?n - 1) 2)"
    by auto
  have layer: "CRAnsatz_layer self = Inr (c3, b3)"
    using assms(3) qc c1(1) c2(1) c3(1) by (simp add: CRAnsatz_layer_def Let_def)
  have l1: "int (length (py_range 0 ?n 2)) = ?n div 2"
    using assms(1,2) by (simp add: py_range_up_length)
  have l2: "int (length (py_range 1 (?n - 1) 2)) = (?n - 1) div 2"
    using assms(1,2) by (simp add: py_range_up_length)
  from c3(2) c2(3) cnt1 l1 l2
  have "int (count_ops ''cr'' c3) = ?n div 2 + (?n - 1) div 2" by simp
  with layer show ?thesis by blast
qed

section \<open>Parameter names\<close>

lemma digit_char_inj: "d < 10 \<Longrightarrow> e < 10 \<Longrightarrow> digit_char d = digit_char e \<Longrightarrow> d = e"
proof -
  assume a: "d < 10" "e < 10" "digit_char d = digit_char e"
  have "distinct ''0123456789''" by simp
  moreover have "d < length ''0123456789''" "e < length ''0123456789''" using a by simp_all
  ultimately show "d = e" using a(3) unfolding digit_char_def
    by (simp only: nth_eq_iff_index_eq)
qed

lemma is_digit_digit_char: "d < 10 \<Longrightarrow> is_digit (digit_char d)"
  unfolding is_digit_def digit_char_def by (rule nth_mem) simp

lemma str_nat_small: "k < 10 \<Longrightarrow> str_nat k = [digit_char k]"
  by (subst str_nat.simps) simp

lemma str_nat_large:
  "\<not> k < 10 \<Longrightarrow> str_nat k = str_nat (k div 10) @ [digit_char (k mod 10)]"
  by (subst str_nat.simps) simp

lemma str_nat_digits: "c \<in> set (str_nat k) \<Longrightarrow> is_digit c"
proof (induction k rule: str_nat.induct)
  case (1 k)
  show ?case
  proof (cases "k < 10")
    case True
    with "1.prems" show ?thesis by (simp add: str_nat_small is_digit_digit_char)
  next
    case False
    with "1.prems" "1.IH" show ?thesis
      by (auto simp: str_nat_large is_digit_digit_char)
  qed
qed

lemma str_nat_nonempty: "str_nat k \<noteq> []"
  by (cases "k < 10") (simp_all add: str_nat_small str_nat_large)

lemma str_nat_nonempty': "[] \<noteq> str_nat k"
  using str_nat_nonempty[of k] by simp

lemma str_nat_inj: "str_nat m = str_nat n \<Longrightarrow> m = n"
proof (induction m arbitrary: n rule: str_nat.induct)
  case (1 m)
  show ?case
  proof (cases "m < 10")
    case m: True
    show ?thesis
    proof (cases "n < 10")
      case True
      with m "1.prems" show ?thesis by (simp add: str_nat_small digit_char_inj)
    next
      case False
      with m "1.prems" show ?thesis
        by (simp add: str_nat_small str_nat_large str_nat_nonempty')
    qed
  next
    case m: False
    show ?thesis
    proof (cases "n < 10")
      case True
      with m "1.prems" show ?thesis
        by (simp add: str_nat_small str_nat_large str_nat_nonempty)
    next
      case False
      with m "1.prems" have eq: "str_nat (m div 10) = str_nat (n div 10)"
        "digit_char (m mod 10) = digit_char (n mod 10)"
        by (simp_all add: str_nat_large)
      from "1.IH"[OF m eq(1)] have "m div 10 = n div 10" .
      moreover from eq(2) have "m mod 10 = n mod 10" by (simp add: digit_char_inj)
      ultimately show ?thesis by (metis div_mult_mod_eq)
    qed
  qed
qed

lemma digit_suffix:
  assumes "\<not> ends_in_digit p"
  shows "takeWhile is_digit (rev (p @ str_nat k)) = rev (str_nat k)"
proof -
  have "takeWhile is_digit (rev p) = []"
  proof (cases p rule: rev_cases)
    case Nil
    then show ?thesis by simp
  next
    case (snoc ys y)
    with assms show ?thesis by (simp add: ends_in_digit_def)
  qed
  moreover have "takeWhile is_digit (rev (str_nat k) @ rev p)
      = rev (str_nat k) @ takeWhile is_digit (rev p)"
    by (rule takeWhile_append2) (simp add: str_nat_digits)
  ultimately show ?thesis by simp
qed

lemma prefixed_names_differ:
  assumes "\<not> ends_in_digit p" "\<not> ends_in_digit q" "i \<noteq> j"
  shows "p @ str_nat i \<noteq> q @ str_nat j"
proof
  assume "p @ str_nat i = q @ str_nat j"
  then have "takeWhile is_digit (rev (p @ str_nat i)) = takeWhile is_digit (rev (q @ str_nat j))"
    by simp
  then have "rev (str_nat i) = rev (str_nat j)"
    unfolding digit_suffix[OF assms(1)] digit_suffix[OF assms(2)] .
  then have "i = j" by (simp add: str_nat_inj)
  with assms(3) show False by simp
qed

lemma new_params_length: "length (fst (new_params prefixes self)) = length prefixes"
  by (induction prefixes arbitrary: self) (simp_all add: split_def Let_def)

lemma new_params_params:
  "params (snd (new_params prefixes self)) = params self @ fst (new_params prefixes self)"
  by (induction prefixes arbitrary: self) (simp_all add: split_def Let_def new_param_def)

lemma new_params_nth:
  "k < length prefixes \<Longrightarrow>
     fst (new_params prefixes self) ! k
       = Parameter (prefixes ! k @ str_nat (length (params self) + k))"
proof (induction prefixes arbitrary: self k)
  case Nil
  then show ?case by simp
next
  case (Cons paramstr rest)
  show ?case
  proof (cases k)
    case 0
    then show ?thesis by (simp add: split_def Let_def new_param_def)
  next
    case (Suc j)
    with Cons.prems have "j < length rest" by simp
    from Cons.IH[OF this, of "snd (new_param paramstr self)"] Suc
    show ?thesis by (simp add: split_def Let_def new_param_def)
  qed
qed

text \<open>
  C8, as the code has it: on a fresh builder (\<^verbatim>\<open>RVB\<close>, \<^verbatim>\<open>HVAnsatz\<close> or
  \<^verbatim>\<open>AnsatzBuilder\<close>), the \<open>k\<close>-th call of \<^verbatim>\<open>new_param\<close> (counting from 0)
  returns the parameter named by the prefix it is given followed by the decimal numeral
  of \<open>k\<close>, the number of parameters created before it, and the builder's list holds the
  parameters in the order of creation. The names of one instance are pairwise distinct
  when no prefix passed ends in a decimal digit, as is the case for the prefixes the
  repository passes (\<^verbatim>\<open>'phi'\<close>, \<^verbatim>\<open>'gamma'\<close>, \<^verbatim>\<open>'t'\<close>, \<^verbatim>\<open>'p'\<close>).
\<close>

theorem new_param_names:
  assumes "params self = []"
  shows "length (fst (new_params prefixes self)) = length prefixes
       \<and> params (snd (new_params prefixes self)) = fst (new_params prefixes self)
       \<and> (\<forall>k < length prefixes.
            fst (new_params prefixes self) ! k = Parameter (prefixes ! k @ str_nat k))
       \<and> ((\<forall>p \<in> set prefixes. \<not> ends_in_digit p) \<longrightarrow>
            distinct (map name (params (snd (new_params prefixes self)))))"
proof (intro conjI impI allI)
  show "length (fst (new_params prefixes self)) = length prefixes"
    by (rule new_params_length)
  show eq: "params (snd (new_params prefixes self)) = fst (new_params prefixes self)"
    using assms by (simp add: new_params_params)
  show "fst (new_params prefixes self) ! k = Parameter (prefixes ! k @ str_nat k)"
    if "k < length prefixes" for k
    using new_params_nth[OF that, of self] assms by simp
  assume nd: "\<forall>p \<in> set prefixes. \<not> ends_in_digit p"
  let ?gen = "fst (new_params prefixes self)"
  have "map name ?gen ! i \<noteq> map name ?gen ! j"
    if "i < length prefixes" "j < length prefixes" "i \<noteq> j" for i j
  proof -
    from that nd have "\<not> ends_in_digit (prefixes ! i)" "\<not> ends_in_digit (prefixes ! j)"
      by simp_all
    from prefixed_names_differ[OF this that(3)] that(1,2) assms
    show ?thesis by (simp add: new_params_length new_params_nth)
  qed
  then have "distinct (map name ?gen)"
    by (simp add: distinct_conv_nth new_params_length)
  with eq show "distinct (map name (params (snd (new_params prefixes self))))" by simp
qed

theorem new_param_names_witness:
  "params sim_builder = [] \<and> \<not> ends_in_digit ''phi'' \<and> \<not> ends_in_digit ''t''
   \<and> fst (new_params [''phi'', ''t'', ''phi''] sim_builder)
       = [Parameter ''phi0'', Parameter ''t1'', Parameter ''phi2'']
   \<and> distinct (map name (params (snd (new_params [''phi'', ''t'', ''phi''] sim_builder))))"
proof -
  let ?L = "[''phi'', ''t'', ''phi'']"
  let ?g = "fst (new_params ?L sim_builder)"
  have e: "params sim_builder = []" by (simp add: sim_builder_def AnsatzBuilder_init_def)
  have nd: "\<forall>p \<in> set ?L. \<not> ends_in_digit p"
    by (simp add: ends_in_digit_def is_digit_def)
  have s: "str_nat 0 = ''0''" "str_nat 1 = ''1''" "str_nat 2 = ''2''" by code_simp+
  note inst = new_param_names[OF e, of ?L]
  from inst have len: "length ?g = length ?L" by blast
  from inst have nth: "\<forall>k < length ?L. ?g ! k = Parameter (?L ! k @ str_nat k)" by blast
  have "0 < length ?L" by simp
  with nth have "?g ! 0 = Parameter (?L ! 0 @ str_nat 0)" by blast
  then have g0: "?g ! 0 = Parameter ''phi0''" by (simp only: s) simp
  have "1 < length ?L" by simp
  with nth have "?g ! 1 = Parameter (?L ! 1 @ str_nat 1)" by blast
  then have g1: "?g ! 1 = Parameter ''t1''" by (simp only: s) simp
  have "2 < length ?L" by simp
  with nth have "?g ! 2 = Parameter (?L ! 2 @ str_nat 2)" by blast
  then have g2: "?g ! 2 = Parameter ''phi2''" by (simp only: s) simp
  have "?g = [Parameter ''phi0'', Parameter ''t1'', Parameter ''phi2'']"
  proof (rule nth_equalityI)
    show "length ?g = length [Parameter ''phi0'', Parameter ''t1'', Parameter ''phi2'']"
      using len by simp
  next
    fix i assume "i < length ?g"
    with len have "i = 0 \<or> i = 1 \<or> i = 2" by (simp del: new_params.simps) arith
    then show "?g ! i = [Parameter ''phi0'', Parameter ''t1'', Parameter ''phi2''] ! i"
      using g0 g1 g2 by (elim disjE) (simp_all del: new_params.simps)
  qed
  moreover from inst nd
  have "distinct (map name (params (snd (new_params ?L sim_builder))))" by blast
  moreover have "\<not> ends_in_digit ''phi''" "\<not> ends_in_digit ''t''"
    by (simp_all add: ends_in_digit_def is_digit_def)
  ultimately show ?thesis using e by blast
qed

text \<open>
  C8 as the specification states it, for every prefix: after \<^verbatim>\<open>new_param('p1')\<close>
  and ten calls \<^verbatim>\<open>new_param('p')\<close> on one builder, the first and the last
  parameter are both named \<^verbatim>\<open>p10\<close>.
\<close>

theorem new_param_names_clash_counterexample:
  "\<not> distinct (map name (params (snd (new_params clashing_prefixes sim_builder))))"
proof -
  let ?g = "fst (new_params clashing_prefixes sim_builder)"
  have e: "params sim_builder = []" by (simp add: sim_builder_def AnsatzBuilder_init_def)
  have lp: "length clashing_prefixes = 11" by (simp add: clashing_prefixes_def)
  have len: "length ?g = 11" by (simp only: new_params_length lp)
  have s: "str_nat 0 = ''0''" "str_nat 10 = ''10''" by code_simp+
  have c0: "clashing_prefixes ! 0 = ''p1''" by (simp add: clashing_prefixes_def)
  have c10: "clashing_prefixes ! 10 = ''p''" by (simp add: clashing_prefixes_def)
  have "?g ! 0 = Parameter (clashing_prefixes ! 0 @ str_nat (length (params sim_builder) + 0))"
    by (rule new_params_nth) (simp add: lp)
  then have a: "name (?g ! 0) = ''p10''" by (simp add: e c0 s)
  have "?g ! 10 = Parameter (clashing_prefixes ! 10 @ str_nat (length (params sim_builder) + 10))"
    by (rule new_params_nth) (simp add: lp)
  then have b: "name (?g ! 10) = ''p10''" by (simp add: e c10 s)
  have "map name ?g ! 0 = map name ?g ! 10" using a b len by simp
  moreover have "(0::nat) < length (map name ?g)" "10 < length (map name ?g)"
    using len by simp_all
  ultimately have "\<not> distinct (map name ?g)"
    by (metis nth_eq_iff_index_eq zero_neq_numeral)
  moreover have "params (snd (new_params clashing_prefixes sim_builder)) = ?g"
    by (simp only: new_params_params e append_Nil)
  ultimately show ?thesis by (simp del: new_params.simps)
qed

end
